theory Spec2Isabelle
  imports Complex_Main "HOL-Library.AList"
begin

section \<open>Data model\<close>

text \<open>
  Times read from the clock (\<open>Date.now()\<close>, \<open>new Date()\<close>) are whole epoch
  milliseconds, modelled as \<open>int\<close>. Every handler receives the clock reading
  \<open>now\<close> of its run as an argument; the several \<open>new Date()\<close> calls inside one run
  of a handler are taken to read the same millisecond. Handlers run one at a time.

  JavaScript numbers are doubles. Sums and differences of whole milliseconds are exact.
  The quotient \<open>(end - start) / 1000\<close> of two clock readings is written as the exact
  rational, which stands for the double nearest to it. Where the code computes with
  numbers that need not be whole (the scheduled time of an alarm, the sum of logged
  durations), the operations are those of a parameter of type \<open>js_arith\<close>, so that
  the statements hold whatever the rounding is; \<open>double_arith\<close> below is the
  arithmetic of doubles itself.
\<close>

type_synonym ms = int

record js_arith =
  js_sub :: "rat \<Rightarrow> rat \<Rightarrow> rat"
  js_div :: "rat \<Rightarrow> rat \<Rightarrow> rat"
  js_add :: "rat \<Rightarrow> rat \<Rightarrow> rat"

text \<open>
  A value of type number that may be \<open>NaN\<close>. Every operation on \<open>NaN\<close> gives
  \<open>NaN\<close>, and every comparison with it is false.
\<close>

datatype 'a js_number = Number 'a | NaN

text \<open>
  The arithmetic of doubles on finite numbers: the exact result, rounded to the nearest
  number with a mantissa of 53 bits, ties to the even mantissa, with the fixed spacing
  of the subnormal numbers below \<open>2^-1022\<close>. Results are taken to stay below
  \<open>2^1024\<close>, and no division is by zero.
\<close>

definition pow2 :: "int \<Rightarrow> rat" where
  "pow2 e = (if 0 \<le> e then 2 ^ nat e else 1 / 2 ^ nat (- e))"

text \<open>The number of binary digits of a positive whole number.\<close>

function bitLength :: "int \<Rightarrow> int" where
  "bitLength n = (if n \<le> 0 then 0 else 1 + bitLength (n div 2))"
  by auto
termination
  by (relation "measure nat") auto

declare bitLength.simps [simp del]

text \<open>For \<open>a > 0\<close>, the \<open>e\<close> with \<open>2^e \<le> a < 2^(e+1)\<close>.\<close>

definition binaryExponent :: "rat \<Rightarrow> int" where
  "binaryExponent a =
     (case quotient_of a of (n, d) \<Rightarrow>
        let k = bitLength n - bitLength d
        in if pow2 k \<le> a then k else k - 1)"

definition roundHalfEven :: "rat \<Rightarrow> int" where
  "roundHalfEven q =
     (let f = \<lfloor>q\<rfloor>; r = q - of_int f
      in if r < 1 / 2 then f else if 1 / 2 < r then f + 1 else if even f then f else f + 1)"

text \<open>The distance between neighbouring doubles at \<open>a > 0\<close>.\<close>

definition ulp :: "rat \<Rightarrow> rat" where
  "ulp a = pow2 (max (binaryExponent a) (- 1022) - 52)"

definition roundToDouble :: "rat \<Rightarrow> rat" where
  "roundToDouble x =
     (if x = 0 then 0
      else sgn x * of_int (roundHalfEven (\<bar>x\<bar> / ulp \<bar>x\<bar>)) * ulp \<bar>x\<bar>)"

definition double_arith :: js_arith where
  "double_arith =
     \<lparr>js_sub = (\<lambda>x y. roundToDouble (x - y)),
      js_div = (\<lambda>x y. roundToDouble (x / y)),
      js_add = (\<lambda>x y. roundToDouble (x + y))\<rparr>"

text \<open>
  Reading a property \<open>obj[k]\<close> of a plain object: an own property, a property
  inherited from \<open>Object.prototype\<close> (a function or object, truthy and not a
  number), or \<open>undefined\<close>. Objects are association lists of their own properties in
  creation order.
\<close>

datatype 'a js_prop = Undefined | Own 'a | Inherited

definition objectPrototypeNames :: "string list" where
  "objectPrototypeNames =
     [''constructor'', ''__defineGetter__'', ''__defineSetter__'', ''hasOwnProperty'',
      ''__lookupGetter__'', ''__lookupSetter__'', ''isPrototypeOf'', ''propertyIsEnumerable'',
      ''toString'', ''valueOf'', ''__proto__'', ''toLocaleString'']"

definition js_get :: "(string \<times> 'a) list \<Rightarrow> string \<Rightarrow> 'a js_prop" where
  "js_get obj k =
     (case map_of obj k of
        Some v \<Rightarrow> Own v
      | None \<Rightarrow> if k \<in> set objectPrototypeNames then Inherited else Undefined)"

text \<open>
  \<open>Object.values\<close>, \<open>Object.keys\<close> and \<open>Object.entries\<close> enumerate the own
  properties whose names are array indices first, in ascending order, and then the
  others in creation order. An array index is a canonical decimal numeral below
  \<open>2^32 - 1\<close>.
\<close>

definition arrayIndex :: "string \<Rightarrow> nat option" where
  "arrayIndex k =
     (if k = [] then None
      else if list_ex (\<lambda>c. c \<notin> set ''0123456789'') k then None
      else if hd k = CHR ''0'' \<and> k \<noteq> ''0'' then None
      else (let n = foldl (\<lambda>a c. 10 * a + (of_char c - 48)) 0 k
            in if n < 4294967295 then Some n else None))"

definition ownEntries :: "(string \<times> 'a) list \<Rightarrow> (string \<times> 'a) list" where
  "ownEntries obj =
     sort_key (\<lambda>(k, v). case arrayIndex k of Some n \<Rightarrow> n | None \<Rightarrow> 0)
       (filter (\<lambda>(k, v). arrayIndex k \<noteq> None) obj)
     @ filter (\<lambda>(k, v). arrayIndex k = None) obj"

text \<open>The object kept under the session-storage key \<open>currentPhase\<close> (timer.js).\<close>

record phase_record =
  pr_problemUrl :: string
  pr_phase :: string
  pr_startTime :: ms

text \<open>The same object after \<open>completeCurrentPhase\<close> has added \<open>endTime\<close> and \<open>duration\<close>.\<close>

record completed_record = phase_record +
  cr_endTime :: ms
  cr_duration :: rat

text \<open>An entry of the \<open>logs\<close> array written by \<open>storage.logPhase\<close>.\<close>

record log_entry =
  le_timestamp :: ms
  le_problemUrl :: string
  le_phase :: string
  le_duration :: rat
  le_start :: ms
  le_end :: ms

record problem =
  pb_title :: string
  pb_url :: string

text \<open>An entry of the \<open>solutions\<close> array written by \<open>storage.logSolution\<close>.\<close>

record solution =
  so_timestamp :: ms
  so_problemUrl :: string

text \<open>
  The state the background script works on: the alarm table of \<open>chrome.alarms\<close>
  (name and scheduled time), the session-storage slot, and the keys \<open>logs\<close>,
  \<open>solutions\<close>, \<open>config.phaseDurations\<close> (an object with whole numbers of
  seconds), \<open>problems\<close> and \<open>currentIndex\<close> of the synchronised storage. A stored
  index of \<open>None\<close> is a value that \<open>getState\<close> reads as \<open>0\<close> (absent, or the
  \<open>NaN\<close> that \<open>handleSkipProblem\<close> stores for an empty problem list). Storage
  calls succeed.

  \<open>alarmService\<close> is the alarm service of the browser, which the code only calls:
  \<open>alarmService s now durationSec\<close> is the \<open>scheduledTime\<close> (in milliseconds, not
  necessarily whole) that \<open>chrome.alarms.create\<close> gives to an alarm created at time
  \<open>now\<close> with \<open>delayInMinutes = durationSec / 60\<close>. The quotient is computed in
  doubles, and it is \<open>NaN\<close> when \<open>durationSec\<close> is not a number but something
  inherited. Calls of the alarm service succeed.
\<close>

record bg_state =
  alarms :: "(string \<times> rat js_number) list"
  currentPhaseSlot :: "phase_record option"
  logs :: "log_entry list"
  solutions :: "solution list"
  phaseDurations :: "(string \<times> int) list"
  problems :: "problem list"
  currentIndex :: "nat option"
  alarmService :: "ms \<Rightarrow> int js_prop \<Rightarrow> rat js_number"

datatype error =
    InvalidPhase string
  | NoActivePhaseFound
  | TypeError

section \<open>timer.js\<close>

text \<open>
  \<open>startPhaseTimer\<close> clears the alarm of the same name and creates a new one with
  \<open>delayInMinutes = durationSec / 60\<close>. It validates nothing.
\<close>

definition startPhaseTimer :: "string \<Rightarrow> int js_prop \<Rightarrow> ms \<Rightarrow> bg_state \<Rightarrow> bg_state \<times> (string \<times> ms \<times> int js_prop)" where
  "startPhaseTimer phaseName durationSec now s =
     (s\<lparr>alarms := AList.update phaseName (alarmService s now durationSec)
                      (AList.delete phaseName (alarms s))\<rparr>,
      (phaseName, now, durationSec))"

text \<open>\<open>chrome.alarms.clear\<close> resolves to whether an alarm of that name existed.\<close>

definition stopPhaseTimer :: "string \<Rightarrow> bg_state \<Rightarrow> bg_state \<times> bool" where
  "stopPhaseTimer phaseName s =
     (s\<lparr>alarms := AList.delete phaseName (alarms s)\<rparr>,
      map_of (alarms s) phaseName \<noteq> None)"

text \<open>
  \<open>getRemainingTime\<close>: \<open>alarms.find\<close> takes the first alarm of that name; the
  difference and the quotient are computed in JavaScript numbers, \<open>Math.floor\<close> and
  \<open>Math.max\<close> are exact, and \<open>Math.max(0, NaN)\<close> is \<open>NaN\<close>.
\<close>

definition getRemainingTime :: "js_arith \<Rightarrow> string \<Rightarrow> ms \<Rightarrow> bg_state \<Rightarrow> int js_number" where
  "getRemainingTime A phaseName now s =
     (case map_of (alarms s) phaseName of
        None \<Rightarrow> Number 0
      | Some NaN \<Rightarrow> NaN
      | Some (Number scheduledTime) \<Rightarrow>
          (let remainingMs = js_sub A scheduledTime (of_int now)
           in Number (max 0 \<lfloor>js_div A remainingMs 1000\<rfloor>)))"

definition recordPhaseStart :: "string \<Rightarrow> string \<Rightarrow> ms \<Rightarrow> bg_state \<Rightarrow> bg_state \<times> phase_record" where
  "recordPhaseStart problemUrl phase now s =
     (let record = \<lparr>pr_problemUrl = problemUrl, pr_phase = phase, pr_startTime = now\<rparr>
      in (s\<lparr>currentPhaseSlot := Some record\<rparr>, record))"

definition getCurrentPhase :: "bg_state \<Rightarrow> phase_record option" where
  "getCurrentPhase s = currentPhaseSlot s"

definition completeCurrentPhase :: "ms \<Rightarrow> bg_state \<Rightarrow> bg_state \<times> completed_record option" where
  "completeCurrentPhase now s =
     (case getCurrentPhase s of
        None \<Rightarrow> (s, None)
      | Some record \<Rightarrow>
          (s\<lparr>currentPhaseSlot := None\<rparr>,
           Some (phase_record.extend record
                   \<lparr>cr_endTime = now,
                    cr_duration = of_int (now - pr_startTime record) / 1000\<rparr>)))"

section \<open>storage.js\<close>

definition logPhase :: "string \<Rightarrow> string \<Rightarrow> ms \<Rightarrow> ms \<Rightarrow> ms \<Rightarrow> bg_state \<Rightarrow> bg_state" where
  "logPhase problemUrl phase start end' now s =
     s\<lparr>logs := logs s @
        [\<lparr>le_timestamp = now, le_problemUrl = problemUrl, le_phase = phase,
          le_duration = of_int (end' - start) / 1000,
          le_start = start, le_end = end'\<rparr>]\<rparr>"

text \<open>\<open>getState\<close>: \<open>result.currentIndex || 0\<close>.\<close>

definition getState :: "bg_state \<Rightarrow> problem list \<times> nat" where
  "getState s = (problems s, case currentIndex s of None \<Rightarrow> 0 | Some i \<Rightarrow> i)"

definition setCurrentIndex :: "nat option \<Rightarrow> bg_state \<Rightarrow> bg_state" where
  "setCurrentIndex index s = s\<lparr>currentIndex := index\<rparr>"

section \<open>background.js\<close>

text \<open>
  \<open>handleStartPhase\<close>: the only check is \<open>!durationSec\<close> on
  \<open>config.phaseDurations[phase]\<close>. It is true for \<open>undefined\<close> and for \<open>0\<close>, and
  false for every other number and for what a name like \<open>constructor\<close> inherits.
\<close>

definition handleStartPhase :: "string \<Rightarrow> string \<Rightarrow> ms \<Rightarrow> bg_state \<Rightarrow> bg_state \<times> (error + (string \<times> int js_prop \<times> ms))" where
  "handleStartPhase phase problemUrl now s =
     (let durationSec = js_get (phaseDurations s) phase
      in if durationSec = Undefined \<or> durationSec = Own 0 then (s, Inl (InvalidPhase phase))
         else
           (case startPhaseTimer phase durationSec now s of (s1, timerObj) \<Rightarrow>
            case recordPhaseStart problemUrl phase now s1 of (s2, record) \<Rightarrow>
              (s2, Inr (phase, durationSec, pr_startTime record))))"

definition handleCompletePhase :: "string \<Rightarrow> string \<Rightarrow> ms \<Rightarrow> bg_state \<Rightarrow> bg_state \<times> (error + (string \<times> rat))" where
  "handleCompletePhase phase problemUrl now s =
     (case stopPhaseTimer phase s of (s1, cleared) \<Rightarrow>
      case completeCurrentPhase now s1 of (s2, record) \<Rightarrow>
        (case record of
           None \<Rightarrow> (s2, Inl NoActivePhaseFound)
         | Some r \<Rightarrow>
             (logPhase problemUrl phase (pr_startTime r) now now s2,
              Inr (phase, cr_duration r))))"

text \<open>
  \<open>handlePhaseTimeout\<close> returns the new state and whether the \<open>PHASE_TIMEOUT\<close>
  message was sent to the page.
\<close>

definition handlePhaseTimeout :: "string \<Rightarrow> ms \<Rightarrow> bg_state \<Rightarrow> bg_state \<times> bool" where
  "handlePhaseTimeout phase now s =
     (case getCurrentPhase s of
        None \<Rightarrow> (s, False)
      | Some currentPhase \<Rightarrow>
          if pr_phase currentPhase \<noteq> phase then (s, False)
          else
            (case completeCurrentPhase now s of (s1, record) \<Rightarrow>
               (case record of
                  None \<Rightarrow> (s1, True)
                | Some r \<Rightarrow>
                    (logPhase (pr_problemUrl r) phase (pr_startTime r) now now s1, True))))"

text \<open>
  \<open>handleSkipProblem\<close>: \<open>(currentIndex + 1) % problems.length\<close> is \<open>NaN\<close> for an
  empty list, and \<open>problems[NaN]\<close> is \<open>undefined\<close>.
\<close>

definition handleSkipProblem :: "bg_state \<Rightarrow> bg_state \<times> (error + problem option)" where
  "handleSkipProblem s =
     (case getState s of (probs, curIndex) \<Rightarrow>
        let nextIndex = (if probs = [] then None
                         else Some ((curIndex + 1) mod length probs))
        in (setCurrentIndex nextIndex s,
            Inr (case nextIndex of None \<Rightarrow> None | Some i \<Rightarrow> Some (probs ! i))))"

section \<open>newtab.js\<close>

text \<open>
  The page keeps the sequence state in the variables \<open>currentPhase\<close> and
  \<open>completedPhases\<close>. \<open>timerInterval\<close> is whether the one-second display interval
  is running. \<open>remainingTime\<close> is \<open>None\<close> when it is not a number. The editor
  contents (\<open>userSolutions\<close>, \<open>aiGuidance\<close>) and the DOM play no part in timing and
  are left out.
\<close>

record ui_state =
  currentProblem :: "problem option"
  currentPhase :: string
  completedPhases :: "string list"
  timerInterval :: bool
  remainingTime :: "int option"
  phaseStartTime :: "ms option"

record system =
  bg :: bg_state
  ui :: ui_state

definition phases :: "string list" where
  "phases = [''understand'', ''pseudocode'', ''implement'', ''optimize'']"

text \<open>\<open>Array.prototype.indexOf\<close>: the first position, or \<open>-1\<close>.\<close>

fun indexOf :: "'a list \<Rightarrow> 'a \<Rightarrow> int" where
  "indexOf [] x = - 1"
| "indexOf (y # ys) x =
     (if y = x then 0 else (let i = indexOf ys x in if i < 0 then - 1 else i + 1))"

definition getNextPhase :: "string \<Rightarrow> string option" where
  "getNextPhase cur =
     (let currentIndex' = indexOf phases cur
      in if currentIndex' < int (length phases) - 1
         then Some (phases ! nat (currentIndex' + 1))
         else None)"

definition stopTimer :: "ui_state \<Rightarrow> ui_state" where
  "stopTimer u = u\<lparr>timerInterval := False\<rparr>"

definition startTimer :: "int option \<Rightarrow> ui_state \<Rightarrow> ui_state" where
  "startTimer seconds u = (stopTimer u)\<lparr>remainingTime := seconds, timerInterval := True\<rparr>"

text \<open>The page's \<open>handlePhaseTimeout\<close> only shows a message.\<close>

definition newtab_handlePhaseTimeout :: "ui_state \<Rightarrow> ui_state" where
  "newtab_handlePhaseTimeout u = u"

text \<open>
  The callback of the display interval set up by \<open>startTimer\<close>. The comparison
  \<open>remainingTime <= 0\<close> is false for what is not a number.
\<close>

definition timerTick :: "ui_state \<Rightarrow> ui_state" where
  "timerTick u =
     (let u1 = u\<lparr>remainingTime := map_option (\<lambda>r. r - 1) (remainingTime u)\<rparr>
      in case remainingTime u1 of
           Some r \<Rightarrow> if r \<le> 0 then newtab_handlePhaseTimeout (stopTimer u1) else u1
         | None \<Rightarrow> u1)"

text \<open>
  \<open>startPhase\<close> sets \<open>currentPhase\<close> before it sends \<open>START_PHASE\<close>; reading
  \<open>currentProblem.url\<close> with no problem loaded throws inside its \<open>try\<close>. The result is
  the error that its \<open>catch\<close> reports, if any. A \<open>durationSec\<close> that is not a number
  does not survive the message and leaves \<open>remainingTime\<close> not a number. An alarm
  handled while the page waits for the answer has the effect of one handled before
  the call, since the page has only set \<open>currentPhase\<close>, which no handler reads.
\<close>

definition startPhase :: "string \<Rightarrow> ms \<Rightarrow> system \<Rightarrow> system \<times> (error + unit)" where
  "startPhase phase now sys =
     (let u1 = (ui sys)\<lparr>currentPhase := phase\<rparr>
      in case currentProblem u1 of
           None \<Rightarrow> (sys\<lparr>ui := u1\<rparr>, Inl TypeError)
         | Some p \<Rightarrow>
             (case handleStartPhase phase (pb_url p) now (bg sys) of (b1, response) \<Rightarrow>
                (case response of
                   Inl e \<Rightarrow> (\<lparr>bg = b1, ui = u1\<rparr>, Inl e)
                 | Inr (ph, durationSec, st) \<Rightarrow>
                     (\<lparr>bg = b1,
                       ui = startTimer (case durationSec of Own d \<Rightarrow> Some d | _ \<Rightarrow> None)
                              (u1\<lparr>phaseStartTime := Some now\<rparr>)\<rparr>,
                      Inr ()))))"

text \<open>
  \<open>completePhase\<close>: an error response of \<open>COMPLETE_PHASE\<close> is thrown before the phase
  is marked completed. \<open>startPhase\<close> catches its own errors, so they do not reach
  the \<open>catch\<close> of \<open>completePhase\<close>. Between \<open>COMPLETE_PHASE\<close> and the
  \<open>START_PHASE\<close> of the next phase the current-phase record is empty, so an alarm
  handled there does nothing.
\<close>

definition completePhase :: "ms \<Rightarrow> system \<Rightarrow> system \<times> (error + unit)" where
  "completePhase now sys =
     (let u1 = stopTimer (ui sys)
      in case currentProblem u1 of
           None \<Rightarrow> (sys\<lparr>ui := u1\<rparr>, Inl TypeError)
         | Some p \<Rightarrow>
             (case handleCompletePhase (currentPhase u1) (pb_url p) now (bg sys) of
                (b1, response) \<Rightarrow>
                (case response of
                   Inl e \<Rightarrow> (\<lparr>bg = b1, ui = u1\<rparr>, Inl e)
                 | Inr r \<Rightarrow>
                     (let u2 = u1\<lparr>completedPhases := completedPhases u1 @ [currentPhase u1]\<rparr>
                      in case getNextPhase (currentPhase u2) of
                           Some nextPhase \<Rightarrow>
                             (fst (startPhase nextPhase now \<lparr>bg = b1, ui = u2\<rparr>), Inr ())
                         | None \<Rightarrow> (\<lparr>bg = b1, ui = u2\<rparr>, Inr ())))))"

definition resetState :: "ui_state \<Rightarrow> ui_state" where
  "resetState u = (stopTimer u)\<lparr>currentPhase := ''understand'', completedPhases := []\<rparr>"

text \<open>
  The \<open>chrome.alarms.onAlarm\<close> listener of the background script, followed by the
  delivery of \<open>PHASE_TIMEOUT\<close> to the page's message listener.
  \<open>handleQuizReminderCheck\<close> touches none of the modelled state. Chrome drops a
  one-shot alarm from its table when it fires; the listener itself never touches the
  table, and the model shows the listener only.
\<close>

definition onAlarm :: "string \<Rightarrow> ms \<Rightarrow> system \<Rightarrow> system" where
  "onAlarm name now sys =
     (if name = ''quizReminderCheck'' then sys
      else case handlePhaseTimeout name now (bg sys) of (b1, sent) \<Rightarrow>
             \<lparr>bg = b1, ui = (if sent then newtab_handlePhaseTimeout (ui sys) else ui sys)\<rparr>)"

text \<open>Alarms, by name and time of handling, handled one after the other.\<close>

definition deliver :: "(string \<times> ms) list \<Rightarrow> system \<Rightarrow> system" where
  "deliver between sys = foldl (\<lambda>s (name, t). onAlarm name t s) sys between"

text \<open>
  \<open>skipProblem\<close> sends \<open>SKIP_PROBLEM\<close>, waits for the answer, shows an alert, resets
  the page state and only then starts the first phase with \<open>START_PHASE\<close>. The
  alarms that the background script handles between the two messages are the
  argument \<open>between\<close>. \<open>updateProblemDisplay\<close> throws on an \<open>undefined\<close> next
  problem, after the state was reset and before the first phase is started.
\<close>

definition skipProblem :: "ms \<Rightarrow> (string \<times> ms) list \<Rightarrow> system \<Rightarrow> system \<times> (error + unit)" where
  "skipProblem now between sys =
     (case handleSkipProblem (bg sys) of (b1, response) \<Rightarrow>
        (let sys1 = deliver between \<lparr>bg = b1, ui = ui sys\<rparr>
         in case response of
              Inl e \<Rightarrow> (sys1, Inl e)
            | Inr nextProblem \<Rightarrow>
                (let u1 = (resetState (ui sys1))\<lparr>currentProblem := nextProblem\<rparr>
                 in case nextProblem of
                      None \<Rightarrow> (\<lparr>bg = bg sys1, ui = u1\<rparr>, Inl TypeError)
                    | Some p \<Rightarrow>
                        (fst (startPhase ''understand'' now \<lparr>bg = bg sys1, ui = u1\<rparr>), Inr ()))))"

section \<open>Events on one interval\<close>

text \<open>
  The two ways an interval is ended on the background side, each with the clock
  reading of its run: the \<open>COMPLETE_PHASE\<close> message and the alarm of the phase.
\<close>

datatype event = ManualStop ms | TimeoutFires ms

fun apply_event :: "string \<Rightarrow> string \<Rightarrow> bg_state \<Rightarrow> event \<Rightarrow> bg_state" where
  "apply_event phase problemUrl s (ManualStop t) = fst (handleCompletePhase phase problemUrl t s)"
| "apply_event phase problemUrl s (TimeoutFires t) = fst (handlePhaseTimeout phase t s)"

fun event_time :: "event \<Rightarrow> ms" where
  "event_time (ManualStop t) = t"
| "event_time (TimeoutFires t) = t"

definition run_events :: "string \<Rightarrow> string \<Rightarrow> event list \<Rightarrow> bg_state \<Rightarrow> bg_state" where
  "run_events phase problemUrl evs s = foldl (apply_event phase problemUrl) s evs"

section \<open>logger.js\<close>

text \<open>
  \<open>generateWeeklyReport\<close> groups the logs in the object \<open>problemMap\<close>, keyed by
  problem URL, each entry holding an object \<open>phases\<close> keyed by phase name. Both are
  plain objects, read through the prototype chain. The rendering to markdown
  (\<open>extractProblemName\<close>, \<open>formatDuration\<close>, date strings) is left out: the report
  is the values that are rendered, in the order of rendering.
\<close>

record problem_entry =
  pe_url :: string
  pe_phases :: "(string \<times> log_entry list) list"
  pe_solution :: "solution option"

type_synonym problemMap = "(string \<times> problem_entry) list"

text \<open>
  One round of the loop over \<open>logs\<close>. For a URL that names an inherited property no
  entry is created, and reading \<open>phases\<close> of what is inherited gives \<open>undefined\<close>,
  whose property read throws. For a phase that names an inherited property no array is
  created, and what is inherited has no \<open>push\<close>.
\<close>

definition add_log :: "log_entry \<Rightarrow> problemMap \<Rightarrow> error + problemMap" where
  "add_log lg pm =
     (let url = le_problemUrl lg
      in case js_get pm url of
           Inherited \<Rightarrow> Inl TypeError
         | found \<Rightarrow>
             (let entry = (case found of
                             Own e \<Rightarrow> e
                           | _ \<Rightarrow> \<lparr>pe_url = url, pe_phases = [], pe_solution = None\<rparr>)
              in case js_get (pe_phases entry) (le_phase lg) of
                   Inherited \<Rightarrow> Inl TypeError
                 | Undefined \<Rightarrow>
                     Inr (AList.update url
                           (entry\<lparr>pe_phases := AList.update (le_phase lg) [lg] (pe_phases entry)\<rparr>)
                           pm)
                 | Own ls \<Rightarrow>
                     Inr (AList.update url
                           (entry\<lparr>pe_phases := AList.update (le_phase lg) (ls @ [lg])
                                               (pe_phases entry)\<rparr>)
                           pm)))"

text \<open>The loop over \<open>logs\<close>; a throw ends the function.\<close>

fun add_logs :: "log_entry list \<Rightarrow> problemMap \<Rightarrow> error + problemMap" where
  "add_logs [] pm = Inr pm"
| "add_logs (lg # ls) pm =
     (case add_log lg pm of Inl e \<Rightarrow> Inl e | Inr pm1 \<Rightarrow> add_logs ls pm1)"

text \<open>
  One round of the loop over \<open>solutions\<close>. For a URL that names an inherited
  property the assignment lands on the inherited object and \<open>problemMap\<close> gets no
  entry; that object is outside the model.
\<close>

definition add_solution :: "solution \<Rightarrow> problemMap \<Rightarrow> problemMap" where
  "add_solution sol pm =
     (let url = so_problemUrl sol
      in case js_get pm url of
           Undefined \<Rightarrow>
             AList.update url \<lparr>pe_url = url, pe_phases = [], pe_solution = Some sol\<rparr> pm
         | Own e \<Rightarrow> AList.update url (e\<lparr>pe_solution := Some sol\<rparr>) pm
         | Inherited \<Rightarrow> pm)"

definition build_problemMap :: "log_entry list \<Rightarrow> solution list \<Rightarrow> error + problemMap" where
  "build_problemMap ls sols =
     (case add_logs ls [] of
        Inl e \<Rightarrow> Inl e
      | Inr pm \<Rightarrow> Inr (foldl (\<lambda>pm sol. add_solution sol pm) pm sols))"

text \<open>\<open>logs.reduce((sum, log) => sum + log.duration, 0)\<close>, in JavaScript numbers.\<close>

definition totalDuration :: "js_arith \<Rightarrow> log_entry list \<Rightarrow> rat" where
  "totalDuration A ls = foldl (\<lambda>sum lg. js_add A sum (le_duration lg)) 0 ls"

record report_item =
  ri_url :: string
  ri_phases :: "(string \<times> rat) list"
  ri_solved :: "ms option"

record report =
  rp_generated :: ms
  rp_problems :: "report_item list"

definition render_problem :: "js_arith \<Rightarrow> problem_entry \<Rightarrow> report_item" where
  "render_problem A e =
     \<lparr>ri_url = pe_url e,
      ri_phases = map (\<lambda>(phase, ls). (phase, totalDuration A ls)) (ownEntries (pe_phases e)),
      ri_solved = map_option so_timestamp (pe_solution e)\<rparr>"

text \<open>
  The function reads \<open>logs\<close> and \<open>solutions\<close> and writes nothing back to the
  storage; a throw leaves no report.
\<close>

definition generateWeeklyReport :: "js_arith \<Rightarrow> ms \<Rightarrow> bg_state \<Rightarrow> bg_state \<times> (error + report)" where
  "generateWeeklyReport A now s =
     (s, case build_problemMap (logs s) (solutions s) of
           Inl e \<Rightarrow> Inl e
         | Inr pm \<Rightarrow>
             Inr \<lparr>rp_generated = now,
                  rp_problems = map (\<lambda>(url, e). render_problem A e) (ownEntries pm)\<rparr>)"

text \<open>The total that a report shows for a problem URL and a phase, if it shows one.\<close>

definition reportedTotal :: "report \<Rightarrow> string \<Rightarrow> string \<Rightarrow> rat option" where
  "reportedTotal r url phase =
     (case find (\<lambda>it. ri_url it = url) (rp_problems r) of
        None \<Rightarrow> None
      | Some it \<Rightarrow> map_option snd (find (\<lambda>(p, total). p = phase) (ri_phases it)))"

section \<open>Notions for the statements\<close>

text \<open>
  What the statements about remaining time ask of the arithmetic: subtraction and
  division by 1000 grow with their arguments and keep a result that is at most zero
  at most zero. The arithmetic of doubles is of this kind.
\<close>

definition monotone_arith :: "js_arith \<Rightarrow> bool" where
  "monotone_arith A \<longleftrightarrow>
     (\<forall>x y z. y \<le> z \<longrightarrow> js_sub A x z \<le> js_sub A x y)
     \<and> (\<forall>x y. x \<le> y \<longrightarrow> js_div A x 1000 \<le> js_div A y 1000)
     \<and> (\<forall>x y. x \<le> y \<longrightarrow> js_sub A x y \<le> 0)
     \<and> (\<forall>x. x \<le> 0 \<longrightarrow> js_div A x 1000 \<le> 0)"

text \<open>A key that names no inherited property, and logs and solutions with such keys.\<close>

definition ordinary_key :: "string \<Rightarrow> bool" where
  "ordinary_key k \<longleftrightarrow> k \<notin> set objectPrototypeNames"

definition ordinary_logs :: "log_entry list \<Rightarrow> bool" where
  "ordinary_logs ls \<longleftrightarrow>
     list_all (\<lambda>lg. ordinary_key (le_problemUrl lg) \<and> ordinary_key (le_phase lg)) ls"

definition ordinary_solutions :: "solution list \<Rightarrow> bool" where
  "ordinary_solutions sols \<longleftrightarrow> list_all (\<lambda>sol. ordinary_key (so_problemUrl sol)) sols"

text \<open>
  For the proofs: the logs that \<open>problemMap\<close> holds for a problem URL and a phase,
  and the shape of \<open>problemMap\<close> (no key twice, every entry under its own URL).
\<close>

definition phaseLogs :: "problemMap \<Rightarrow> string \<Rightarrow> string \<Rightarrow> log_entry list option" where
  "phaseLogs pm url ph =
     (case map_of pm url of None \<Rightarrow> None | Some e \<Rightarrow> map_of (pe_phases e) ph)"

definition wf_problemMap :: "problemMap \<Rightarrow> bool" where
  "wf_problemMap pm \<longleftrightarrow>
     distinct (map fst pm)
     \<and> list_all (\<lambda>(k, e). pe_url e = k \<and> distinct (map fst (pe_phases e))) pm"

text \<open>For the proofs: a round of the loop over \<open>logs\<close> that does not throw.\<close>

definition insert_log :: "log_entry \<Rightarrow> problemMap \<Rightarrow> problemMap" where
  "insert_log lg pm =
     (let url = le_problemUrl lg;
          entry = (case map_of pm url of
                     None \<Rightarrow> \<lparr>pe_url = url, pe_phases = [], pe_solution = None\<rparr>
                   | Some e \<Rightarrow> e);
          ls = (case map_of (pe_phases entry) (le_phase lg) of None \<Rightarrow> [] | Some l \<Rightarrow> l)
      in AList.update url
           (entry\<lparr>pe_phases := AList.update (le_phase lg) (ls @ [lg]) (pe_phases entry)\<rparr>) pm)"

section \<open>Example states\<close>

text \<open>Arithmetic without rounding, and an alarm service that schedules to the millisecond.\<close>

definition exact_arith :: js_arith where
  "exact_arith = \<lparr>js_sub = (\<lambda>x y. x - y), js_div = (\<lambda>x y. x / y), js_add = (\<lambda>x y. x + y)\<rparr>"

definition exact_alarms :: "ms \<Rightarrow> int js_prop \<Rightarrow> rat js_number" where
  "exact_alarms now durationSec =
     (case durationSec of Own d \<Rightarrow> Number (of_int (now + 1000 * d)) | _ \<Rightarrow> NaN)"

text \<open>
  An alarm service that computes \<open>Date.now() + delayInMinutes * 60000\<close> in doubles,
  from the \<open>delayInMinutes = durationSec / 60\<close> that \<open>startPhaseTimer\<close> hands over.
\<close>

definition double_alarms :: "ms \<Rightarrow> int js_prop \<Rightarrow> rat js_number" where
  "double_alarms now durationSec =
     (case durationSec of
        Own d \<Rightarrow>
          (let delayInMinutes = roundToDouble (of_int d / 60)
           in Number (roundToDouble (of_int now + roundToDouble (delayInMinutes * 60000))))
      | _ \<Rightarrow> NaN)"

text \<open>The phase durations of \<open>getDefaultConfig\<close> (storage.js).\<close>

definition getDefaultConfig_phaseDurations :: "(string \<times> int) list" where
  "getDefaultConfig_phaseDurations =
     [(''understand'', 300), (''pseudocode'', 600), (''implement'', 900), (''optimize'', 600)]"

definition two_sum :: problem where
  "two_sum = \<lparr>pb_title = ''Two Sum'', pb_url = ''/problems/two-sum/''\<rparr>"

definition lru_cache :: problem where
  "lru_cache = \<lparr>pb_title = ''LRU Cache'', pb_url = ''/problems/lru-cache/''\<rparr>"

text \<open>A freshly configured extension with two problems, and the page showing the first.\<close>

definition fresh_bg :: bg_state where
  "fresh_bg = \<lparr>alarms = [], currentPhaseSlot = None, logs = [], solutions = [],
     phaseDurations = getDefaultConfig_phaseDurations,
     problems = [two_sum, lru_cache], currentIndex = None, alarmService = exact_alarms\<rparr>"

definition fresh_ui :: ui_state where
  "fresh_ui = \<lparr>currentProblem = Some two_sum, currentPhase = ''understand'',
     completedPhases = [], timerInterval = False, remainingTime = Some 0, phaseStartTime = None\<rparr>"

definition fresh_system :: system where
  "fresh_system = \<lparr>bg = fresh_bg, ui = fresh_ui\<rparr>"

text \<open>A configuration with a negative and a zero duration.\<close>

definition negative_config_bg :: bg_state where
  "negative_config_bg = fresh_bg\<lparr>phaseDurations := [(''understand'', - 5), (''pseudocode'', 0)]\<rparr>"

text \<open>The page after \<open>initialize\<close> has started the first phase at time \<open>0\<close>.\<close>

definition understand_running :: system where
  "understand_running = fst (startPhase ''understand'' 0 fresh_system)"

text \<open>The page two minutes later, after \<open>understand\<close> was completed by hand.\<close>

definition pseudocode_running :: system where
  "pseudocode_running = fst (completePhase 120000 understand_running)"

text \<open>
  The background state after \<open>understand\<close> timed out at 300 s, was started again and
  was completed by hand 45.5 s later.
\<close>

definition two_intervals_bg :: bg_state where
  "two_intervals_bg =
     fst (handleCompletePhase ''understand'' ''/problems/two-sum/'' 345500
       (fst (handleStartPhase ''understand'' ''/problems/two-sum/'' 300000
         (fst (handlePhaseTimeout ''understand'' 300000 (bg understand_running))))))"

text \<open>
  The background state after the messages \<open>START_PHASE\<close> and \<open>COMPLETE_PHASE\<close> for
  the phase \<open>understand\<close> of a problem whose URL in the fetched problem list is the
  string \<open>constructor\<close>.
\<close>

definition constructor_logged_bg :: bg_state where
  "constructor_logged_bg =
     fst (handleCompletePhase ''understand'' ''constructor'' 1000
       (fst (handleStartPhase ''understand'' ''constructor'' 0 fresh_bg)))"

text \<open>
  A configuration with a phase of 65 seconds, and the alarm service that computes in
  doubles.
\<close>

definition sixty_five_bg :: bg_state where
  "sixty_five_bg =
     fresh_bg\<lparr>phaseDurations := [(''understand'', 65)], alarmService := double_alarms\<rparr>"

text \<open>
  Stored logs of three intervals of one phase, of 11.098 s, 33.032 s and 15.87 s, the
  durations being the doubles that these quotients are in JavaScript.
\<close>

definition three_intervals_bg :: bg_state where
  "three_intervals_bg =
     fresh_bg\<lparr>logs :=
       [\<lparr>le_timestamp = 11098, le_problemUrl = ''/problems/two-sum/'', le_phase = ''understand'',
         le_duration = roundToDouble (11098 / 1000), le_start = 0, le_end = 11098\<rparr>,
        \<lparr>le_timestamp = 50000, le_problemUrl = ''/problems/two-sum/'', le_phase = ''understand'',
         le_duration = roundToDouble (33032 / 1000), le_start = 16968, le_end = 50000\<rparr>,
        \<lparr>le_timestamp = 75870, le_problemUrl = ''/problems/two-sum/'', le_phase = ''understand'',
         le_duration = roundToDouble (15870 / 1000), le_start = 60000, le_end = 75870\<rparr>]\<rparr>"

lemmas example_defs = fresh_system_def fresh_ui_def fresh_bg_def two_sum_def lru_cache_def
  getDefaultConfig_phaseDurations_def exact_alarms_def

section \<open>Doubles\<close>

text \<open>
  Rounding to the nearest double keeps the order and the sign, and leaves whole numbers
  of at most 53 bits as they are.
\<close>

lemma pow2_powi: "pow2 e = 2 powi e"
  by (simp add: pow2_def power_int_def field_simps)

lemma pow2_pos [simp]: "0 < pow2 e"
  by (simp add: pow2_powi)

lemma pow2_add: "pow2 (a + b) = pow2 a * pow2 b"
  by (simp add: pow2_powi power_int_add)

lemma pow2_mono: "a \<le> b \<Longrightarrow> pow2 a \<le> pow2 b"
  by (simp add: pow2_powi power_int_increasing)

lemma pow2_nat: "0 \<le> e \<Longrightarrow> pow2 e = 2 ^ nat e"
  by (simp add: pow2_def)

lemma pow2_int_le: "0 \<le> e \<Longrightarrow> 2 ^ nat e \<le> n \<Longrightarrow> pow2 e \<le> of_int n"
proof -
  assume e: "0 \<le> e" and "2 ^ nat e \<le> n"
  then have "(of_int (2 ^ nat e) :: rat) \<le> of_int n"
    by (simp only: of_int_le_iff)
  then show ?thesis
    using e by (simp add: pow2_nat)
qed

lemma pow2_int_less: "0 \<le> e \<Longrightarrow> n < 2 ^ nat e \<Longrightarrow> of_int n < pow2 e"
proof -
  assume e: "0 \<le> e" and "n < 2 ^ nat e"
  then have "(of_int n :: rat) < of_int (2 ^ nat e)"
    by (simp only: of_int_less_iff)
  then show ?thesis
    using e by (simp add: pow2_nat)
qed

lemma bitLength_bounds:
  "0 < n \<Longrightarrow> 1 \<le> bitLength n \<and> 2 ^ nat (bitLength n - 1) \<le> n \<and> n < 2 ^ nat (bitLength n)"
proof (induction n rule: bitLength.induct)
  case (1 n)
  show ?case
  proof (cases "n = 1")
    case True
    have "bitLength 1 = 1"
      by (simp add: bitLength.simps [of 1] bitLength.simps [of 0])
    with True show ?thesis by simp
  next
    case False
    with 1 have h: "0 < n div 2" by simp
    have ih: "1 \<le> bitLength (n div 2) \<and> 2 ^ nat (bitLength (n div 2) - 1) \<le> n div 2
        \<and> n div 2 < 2 ^ nat (bitLength (n div 2))"
      using 1 h by simp
    have b: "bitLength n = 1 + bitLength (n div 2)"
      using 1 by (simp add: bitLength.simps [of n])
    define k where "k = nat (bitLength (n div 2) - 1)"
    have k: "nat (bitLength (n div 2)) = Suc k" "nat (bitLength n - 1) = Suc k"
      "nat (bitLength n) = Suc (Suc k)"
      using ih b unfolding k_def by linarith+
    have "2 ^ k \<le> n div 2" "n div 2 < 2 ^ Suc k"
      using ih unfolding k k_def by blast+
    then have p: "2 ^ Suc k \<le> n" "n < 2 ^ Suc (Suc k)"
      by simp_all
    have "1 \<le> bitLength n" using ih b by linarith
    moreover have "2 ^ nat (bitLength n - 1) \<le> n" unfolding k by (rule p)
    moreover have "n < 2 ^ nat (bitLength n)" unfolding k by (rule p)
    ultimately show ?thesis by blast
  qed
qed

lemma binaryExponent_bounds:
  assumes "0 < a"
  shows "pow2 (binaryExponent a) \<le> a \<and> a < pow2 (binaryExponent a + 1)"
proof -
  obtain n d where q: "quotient_of a = (n, d)" by (cases "quotient_of a")
  then have d: "0 < d" and a: "a = of_int n / of_int d"
    by (simp_all add: quotient_of_denom_pos quotient_of_div)
  have n: "0 < n"
    using assms d a by (simp add: zero_less_divide_iff)
  define bn bd where "bn = bitLength n" and "bd = bitLength d"
  have bn: "1 \<le> bn" "2 ^ nat (bn - 1) \<le> n" "n < 2 ^ nat bn"
    using bitLength_bounds [OF n] by (simp_all add: bn_def)
  have bd: "1 \<le> bd" "2 ^ nat (bd - 1) \<le> d" "d < 2 ^ nat bd"
    using bitLength_bounds [OF d] by (simp_all add: bd_def)
  have n1: "pow2 (bn - 1) \<le> of_int n" "of_int n < pow2 bn"
    using bn pow2_int_le [of "bn - 1" n] pow2_int_less [of bn n] by simp_all
  have d1: "pow2 (bd - 1) \<le> of_int d" "of_int d < pow2 bd"
    using bd pow2_int_le [of "bd - 1" d] pow2_int_less [of bd d] by simp_all
  have up: "a < pow2 (bn - bd + 1)"
  proof -
    have "of_int n < pow2 bn" by (rule n1)
    also have "pow2 bn = pow2 (bn - bd + 1) * pow2 (bd - 1)"
      by (simp flip: pow2_add)
    also have "\<dots> \<le> pow2 (bn - bd + 1) * of_int d"
      using d1 by (simp add: mult_left_mono)
    finally show ?thesis
      using d by (simp add: a pos_divide_less_eq)
  qed
  have lo: "pow2 (bn - bd - 1) \<le> a"
  proof -
    have "pow2 (bn - bd - 1) * of_int d \<le> pow2 (bn - bd - 1) * pow2 bd"
      using d1 by (simp add: mult_left_mono)
    also have "\<dots> = pow2 (bn - 1)"
      by (simp flip: pow2_add)
    also have "\<dots> \<le> of_int n" by (rule n1)
    finally show ?thesis
      using d by (simp add: a pos_le_divide_eq)
  qed
  have e: "binaryExponent a = (if pow2 (bn - bd) \<le> a then bn - bd else bn - bd - 1)"
    by (simp add: binaryExponent_def q Let_def bn_def bd_def)
  show ?thesis
    using up lo by (auto simp add: e not_le)
qed

lemma binaryExponent_mono:
  assumes "0 < a" "a \<le> b"
  shows "binaryExponent a \<le> binaryExponent b"
proof (rule ccontr)
  assume "\<not> binaryExponent a \<le> binaryExponent b"
  then have "binaryExponent b + 1 \<le> binaryExponent a" by simp
  then have "pow2 (binaryExponent b + 1) \<le> pow2 (binaryExponent a)" by (rule pow2_mono)
  also have "\<dots> \<le> a" using binaryExponent_bounds [OF assms(1)] by simp
  also have "\<dots> \<le> b" by (rule assms)
  finally show False
    using binaryExponent_bounds [of b] assms by simp
qed

lemma roundHalfEven_of_int [simp]: "roundHalfEven (of_int m) = m"
  by (simp add: roundHalfEven_def)

lemma roundHalfEven_range: "\<lfloor>q\<rfloor> \<le> roundHalfEven q \<and> roundHalfEven q \<le> \<lfloor>q\<rfloor> + 1"
  by (simp add: roundHalfEven_def Let_def)

lemma roundHalfEven_mono:
  assumes "q \<le> q'"
  shows "roundHalfEven q \<le> roundHalfEven q'"
proof (cases "\<lfloor>q\<rfloor> = \<lfloor>q'\<rfloor>")
  case True
  then have "q - of_int \<lfloor>q\<rfloor> \<le> q' - of_int \<lfloor>q'\<rfloor>"
    using assms by simp
  then show ?thesis
    using True by (auto simp add: roundHalfEven_def Let_def)
next
  case False
  then have "\<lfloor>q\<rfloor> + 1 \<le> \<lfloor>q'\<rfloor>"
    using floor_mono [OF assms] by simp
  then show ?thesis
    using roundHalfEven_range [of q] roundHalfEven_range [of q'] by simp
qed

lemma roundHalfEven_ge: "of_int m \<le> q \<Longrightarrow> m \<le> roundHalfEven q"
  using roundHalfEven_mono [of "of_int m" q] by simp

lemma roundHalfEven_le: "q \<le> of_int m \<Longrightarrow> roundHalfEven q \<le> m"
  using roundHalfEven_mono [of q "of_int m"] by simp


lemma ulp_pos [simp]: "0 < ulp a"
  by (simp add: ulp_def)

lemma ulp_nonneg [simp]: "0 \<le> ulp a"
  by (rule less_imp_le) (rule ulp_pos)

lemma roundToDouble_pos:
  "0 < a \<Longrightarrow> roundToDouble a = of_int (roundHalfEven (a / ulp a)) * ulp a"
  by (simp add: roundToDouble_def)

lemma roundToDouble_minus: "roundToDouble (- x) = - roundToDouble x"
  by (simp add: roundToDouble_def sgn_minus)

lemma roundToDouble_zero [simp]: "roundToDouble 0 = 0"
  by (simp add: roundToDouble_def)

lemma pow2_53: "pow2 (e + 1) = of_int (2 ^ 53) * pow2 (e - 52)"
proof -
  have "pow2 53 * pow2 (e - 52) = pow2 (53 + (e - 52))"
    by (simp only: pow2_add)
  also have "53 + (e - 52) = e + 1" by simp
  finally show ?thesis by (simp add: pow2_def)
qed

lemma pow2_52: "pow2 e = of_int (2 ^ 52) * pow2 (e - 52)"
proof -
  have "pow2 52 * pow2 (e - 52) = pow2 (52 + (e - 52))"
    by (simp only: pow2_add)
  also have "52 + (e - 52) = e" by simp
  finally show ?thesis by (simp add: pow2_def)
qed

lemma roundToDouble_upper:
  assumes "0 < a"
  shows "roundToDouble a \<le> pow2 (max (binaryExponent a) (- 1022) + 1)"
proof -
  define e where "e = max (binaryExponent a) (- 1022)"
  have u: "ulp a = pow2 (e - 52)" by (simp add: ulp_def e_def)
  have "a < pow2 (binaryExponent a + 1)"
    using binaryExponent_bounds [OF assms] by simp
  also have "\<dots> \<le> pow2 (e + 1)"
    by (rule pow2_mono) (simp add: e_def)
  finally have "a \<le> of_int (2 ^ 53) * ulp a"
    by (simp only: u pow2_53 [symmetric])
  then have "a / ulp a \<le> of_int (2 ^ 53)"
    by (simp add: pos_divide_le_eq)
  then have "roundHalfEven (a / ulp a) \<le> 2 ^ 53"
    by (rule roundHalfEven_le)
  then have "(of_int (roundHalfEven (a / ulp a)) :: rat) \<le> of_int (2 ^ 53)"
    by (simp only: of_int_le_iff)
  then have "of_int (roundHalfEven (a / ulp a)) * ulp a \<le> of_int (2 ^ 53) * ulp a"
    by (rule mult_right_mono) simp
  then show ?thesis
    by (simp only: roundToDouble_pos [OF assms] u pow2_53 [symmetric] e_def)
qed

lemma roundToDouble_lower:
  assumes "0 < a" and "- 1022 \<le> binaryExponent a"
  shows "pow2 (binaryExponent a) \<le> roundToDouble a"
proof -
  define e where "e = binaryExponent a"
  have u: "ulp a = pow2 (e - 52)" using assms(2) by (simp add: ulp_def e_def max_def)
  have "pow2 e \<le> a"
    using binaryExponent_bounds [OF assms(1)] by (simp add: e_def)
  then have "of_int (2 ^ 52) * ulp a \<le> a"
    by (simp only: u pow2_52 [symmetric])
  then have "of_int (2 ^ 52) \<le> a / ulp a"
    by (simp add: pos_le_divide_eq)
  then have "2 ^ 52 \<le> roundHalfEven (a / ulp a)"
    by (rule roundHalfEven_ge)
  then have "(of_int (2 ^ 52) :: rat) \<le> of_int (roundHalfEven (a / ulp a))"
    by (simp only: of_int_le_iff)
  then have "of_int (2 ^ 52) * ulp a \<le> of_int (roundHalfEven (a / ulp a)) * ulp a"
    by (rule mult_right_mono) simp
  then show ?thesis
    by (simp only: roundToDouble_pos [OF assms(1)] u pow2_52 [symmetric] e_def)
qed

lemma roundToDouble_nonneg:
  assumes "0 \<le> a"
  shows "0 \<le> roundToDouble a"
proof (cases "a = 0")
  case True
  then show ?thesis by simp
next
  case False
  with assms have a: "0 < a" by simp
  then have "of_int 0 \<le> a / ulp a" by simp
  then have "0 \<le> roundHalfEven (a / ulp a)" by (rule roundHalfEven_ge)
  then show ?thesis
    by (simp add: roundToDouble_pos [OF a])
qed

lemma roundToDouble_mono_pos:
  assumes a: "0 < a" and le: "a \<le> b"
  shows "roundToDouble a \<le> roundToDouble b"
proof -
  have b: "0 < b" using a le by simp
  define ea eb where "ea = max (binaryExponent a) (- 1022)"
    and "eb = max (binaryExponent b) (- 1022)"
  have "binaryExponent a \<le> binaryExponent b"
    using a le by (rule binaryExponent_mono)
  then have e: "ea \<le> eb" by (simp add: ea_def eb_def)
  show ?thesis
  proof (cases "ea = eb")
    case True
    then have u: "ulp a = ulp b" by (simp add: ulp_def ea_def eb_def)
    have "a / ulp b \<le> b / ulp b"
      using le by (simp add: divide_right_mono)
    then have "roundHalfEven (a / ulp b) \<le> roundHalfEven (b / ulp b)"
      by (rule roundHalfEven_mono)
    then have "(of_int (roundHalfEven (a / ulp b)) :: rat) \<le> of_int (roundHalfEven (b / ulp b))"
      by (simp only: of_int_le_iff)
    then have "of_int (roundHalfEven (a / ulp b)) * ulp b
        \<le> of_int (roundHalfEven (b / ulp b)) * ulp b"
      by (rule mult_right_mono) simp
    then show ?thesis
      by (simp only: roundToDouble_pos [OF a] roundToDouble_pos [OF b] u)
  next
    case False
    with e have lt: "ea + 1 \<le> eb" by simp
    then have n: "- 1022 \<le> binaryExponent b" and eb: "eb = binaryExponent b"
      by (simp_all add: ea_def eb_def)
    have "roundToDouble a \<le> pow2 (ea + 1)"
      using roundToDouble_upper [OF a] by (simp add: ea_def)
    also have "\<dots> \<le> pow2 eb"
      using lt by (rule pow2_mono)
    also have "\<dots> \<le> roundToDouble b"
      using roundToDouble_lower [OF b n] by (simp add: eb)
    finally show ?thesis .
  qed
qed

lemma roundToDouble_mono:
  assumes "x \<le> y"
  shows "roundToDouble x \<le> roundToDouble y"
proof -
  consider "0 < x" | "x \<le> 0" "0 \<le> y" | "y < 0" by linarith
  then show ?thesis
  proof cases
    case 1
    then show ?thesis using assms by (rule roundToDouble_mono_pos)
  next
    case 2
    have "roundToDouble x = - roundToDouble (- x)"
      using roundToDouble_minus [of "- x"] by simp
    moreover have "0 \<le> roundToDouble (- x)"
      using 2 by (intro roundToDouble_nonneg) simp
    moreover have "0 \<le> roundToDouble y"
      using 2 by (intro roundToDouble_nonneg)
    ultimately show ?thesis by simp
  next
    case 3
    then have "0 < - y" "- y \<le> - x" using assms by simp_all
    then have "roundToDouble (- y) \<le> roundToDouble (- x)"
      by (rule roundToDouble_mono_pos)
    then show ?thesis
      by (simp add: roundToDouble_minus)
  qed
qed

lemma roundToDouble_nonpos: "x \<le> 0 \<Longrightarrow> roundToDouble x \<le> 0"
  using roundToDouble_mono [of x 0] by simp


lemma pow2_less: "a < b \<Longrightarrow> pow2 a < pow2 b"
proof -
  assume "a < b"
  then have "pow2 (a + 1) \<le> pow2 b" by (intro pow2_mono) simp
  moreover have "pow2 1 = 2" by (simp add: pow2_def)
  then have "pow2 (a + 1) = 2 * pow2 a"
    by (simp only: pow2_add mult.commute)
  ultimately show ?thesis
    using pow2_pos [of a] by linarith
qed

lemma pow2_le_imp_le: "pow2 a \<le> pow2 b \<Longrightarrow> a \<le> b"
  using pow2_less [of b a] by (cases "a \<le> b") simp_all

lemma roundToDouble_fixed:
  "0 < a \<Longrightarrow> a / ulp a = of_int m \<Longrightarrow> roundToDouble a = a"
proof -
  assume a: "0 < a" and m: "a / ulp a = of_int m"
  then have "roundToDouble a = (a / ulp a) * ulp a"
    by (simp add: roundToDouble_pos)
  then show ?thesis using ulp_pos [of a] by simp
qed

lemma roundToDouble_of_int_pos:
  assumes n: "0 < n" "n \<le> 2 ^ 53"
  shows "roundToDouble (of_int n) = of_int n"
proof -
  define a :: rat where "a = of_int n"
  define e where "e = binaryExponent a"
  have a: "0 < a" "1 \<le> a" "a \<le> pow2 53"
    using n pow2_int_le [of 53 "2 ^ 53"] by (simp_all add: a_def pow2_def)
  have b: "pow2 e \<le> a" "a < pow2 (e + 1)"
    using binaryExponent_bounds [OF a(1)] by (simp_all add: e_def)
  have "pow2 0 < pow2 (e + 1)"
    using a(2) b(2) by (simp add: pow2_def)
  then have e0: "0 \<le> e"
    using pow2_mono [of "e + 1" 0] by (cases "0 \<le> e") simp_all
  have "pow2 e \<le> pow2 53" using a(3) b(1) by simp
  then have e53: "e \<le> 53" by (rule pow2_le_imp_le)
  have u: "ulp a = pow2 (e - 52)"
    using e0 by (simp add: ulp_def e_def max_def)
  have "\<exists>m. a / ulp a = of_int m"
  proof (cases "e \<le> 52")
    case True
    then have "ulp a = 1 / 2 ^ nat (52 - e)"
      by (auto simp add: u pow2_def)
    then have "a / ulp a = of_int (n * 2 ^ nat (52 - e))"
      by (simp add: a_def)
    then show ?thesis ..
  next
    case False
    with e53 have e: "e = 53" by simp
    then have av: "a = pow2 53" using a(3) b(1) by simp
    have ua: "ulp a = 2" by (simp add: u e pow2_def)
    have "a / ulp a = pow2 53 / 2" by (simp only: ua av [symmetric])
    also have "\<dots> = of_int (2 ^ 52)" by (simp add: pow2_def)
    finally show ?thesis ..
  qed
  then obtain m where "a / ulp a = of_int m" ..
  with a(1) have "roundToDouble a = a" by (rule roundToDouble_fixed)
  then show ?thesis by (simp only: a_def)
qed

lemma roundToDouble_of_int:
  assumes "\<bar>n\<bar> \<le> 2 ^ 53"
  shows "roundToDouble (of_int n) = of_int n"
proof -
  consider "n = 0" | "0 < n" | "n < 0" by linarith
  then show ?thesis
  proof cases
    case 1
    then show ?thesis by simp
  next
    case 2
    then show ?thesis using assms by (intro roundToDouble_of_int_pos) simp_all
  next
    case 3
    then have "roundToDouble (of_int (- n)) = of_int (- n)"
      using assms by (intro roundToDouble_of_int_pos) simp_all
    then show ?thesis
      by (simp add: roundToDouble_minus)
  qed
qed

lemma roundToDouble_numeral:
  "numeral w \<le> (2 ^ 53 :: int) \<Longrightarrow> roundToDouble (numeral w) = numeral w"
  using roundToDouble_of_int [of "numeral w"] by simp

lemma monotone_double_arith: "monotone_arith double_arith"
proof -
  have "js_sub double_arith x z \<le> js_sub double_arith x y" if "y \<le> z" for x y z
    using that by (simp add: double_arith_def roundToDouble_mono)
  moreover have "js_div double_arith x 1000 \<le> js_div double_arith y 1000" if "x \<le> y" for x y
    using that by (simp add: double_arith_def roundToDouble_mono divide_right_mono)
  moreover have "js_sub double_arith x y \<le> 0" if "x \<le> y" for x y
    using that by (simp add: double_arith_def roundToDouble_nonpos)
  moreover have "js_div double_arith x 1000 \<le> 0" if "x \<le> 0" for x
    using that by (simp add: double_arith_def roundToDouble_nonpos divide_nonpos_nonneg)
  ultimately show ?thesis
    unfolding monotone_arith_def by blast
qed

lemma roundToDouble_half: "roundToDouble (597 / 2) = 597 / 2" "roundToDouble (691 / 2) = 691 / 2"
  by code_simp+

section \<open>Starting a phase\<close>

lemma js_get_own: "map_of obj k = Some v \<Longrightarrow> js_get obj k = Own v"
  by (simp add: js_get_def)

lemma js_get_Undefined_iff:
  "js_get obj k = Undefined \<longleftrightarrow> map_of obj k = None \<and> k \<notin> set objectPrototypeNames"
  by (simp add: js_get_def split: option.split)

lemma handleStartPhase_ok:
  "map_of (phaseDurations s) p = Some d \<Longrightarrow> d \<noteq> 0 \<Longrightarrow>
   handleStartPhase p url t s =
     (s\<lparr>alarms := AList.update p (alarmService s t (Own d)) (AList.delete p (alarms s)),
        currentPhaseSlot := Some \<lparr>pr_problemUrl = url, pr_phase = p, pr_startTime = t\<rparr>\<rparr>,
      Inr (p, Own d, t))"
  by (simp add: handleStartPhase_def js_get_own startPhaseTimer_def recordPhaseStart_def Let_def)

lemma handleStartPhase_fail:
  "js_get (phaseDurations s) p = Undefined \<or> map_of (phaseDurations s) p = Some 0 \<Longrightarrow>
   handleStartPhase p url t s = (s, Inl (InvalidPhase p))"
  by (auto simp add: handleStartPhase_def js_get_own)

lemma handleStartPhase_logs [simp]: "logs (fst (handleStartPhase p url t s)) = logs s"
  by (simp add: handleStartPhase_def startPhaseTimer_def recordPhaseStart_def Let_def)

lemma handleStartPhase_other_alarm:
  "q \<noteq> p \<Longrightarrow> map_of (alarms (fst (handleStartPhase p url t s))) q = map_of (alarms s) q"
  by (simp add: handleStartPhase_def startPhaseTimer_def recordPhaseStart_def Let_def
      update_conv' delete_conv')

lemma startPhase_bg:
  "bg (fst (startPhase p t sys)) =
     (case currentProblem (ui sys) of
        None \<Rightarrow> bg sys
      | Some P \<Rightarrow> fst (handleStartPhase p (pb_url P) t (bg sys)))"
  by (auto simp add: startPhase_def Let_def split: option.split prod.split sum.split)

lemma startPhase_logs [simp]: "logs (bg (fst (startPhase p t sys))) = logs (bg sys)"
  by (simp add: startPhase_bg split: option.split)

lemma startPhase_other_alarm:
  "q \<noteq> p \<Longrightarrow> map_of (alarms (bg (fst (startPhase p t sys)))) q = map_of (alarms (bg sys)) q"
  by (simp add: startPhase_bg handleStartPhase_other_alarm split: option.split)

lemma startPhase_sequence [simp]:
  "currentPhase (ui (fst (startPhase p t sys))) = p"
  "completedPhases (ui (fst (startPhase p t sys))) = completedPhases (ui sys)"
  "currentProblem (ui (fst (startPhase p t sys))) = currentProblem (ui sys)"
  by (auto simp add: startPhase_def Let_def startTimer_def stopTimer_def
      split: option.split prod.split sum.split)

lemma startPhase_ok:
  "map_of (phaseDurations (bg sys)) p = Some d \<Longrightarrow> d \<noteq> 0 \<Longrightarrow>
   currentProblem (ui sys) = Some P \<Longrightarrow>
   startPhase p t sys =
     (\<lparr>bg = fst (handleStartPhase p (pb_url P) t (bg sys)),
       ui = startTimer (Some d) ((ui sys)\<lparr>currentPhase := p, phaseStartTime := Some t\<rparr>)\<rparr>, Inr ())"
  by (simp add: startPhase_def Let_def handleStartPhase_ok)

lemma startPhase_fail:
  "js_get (phaseDurations (bg sys)) p = Undefined \<or> map_of (phaseDurations (bg sys)) p = Some 0 \<Longrightarrow>
   currentProblem (ui sys) = Some P \<Longrightarrow>
   startPhase p t sys = (\<lparr>bg = bg sys, ui = (ui sys)\<lparr>currentPhase := p\<rparr>\<rparr>, Inl (InvalidPhase p))"
  by (simp add: startPhase_def Let_def handleStartPhase_fail)

lemma understand_running_eq:
  "understand_running =
    \<lparr>bg = fresh_bg\<lparr>alarms := [(''understand'', Number 300000)],
         currentPhaseSlot := Some \<lparr>pr_problemUrl = ''/problems/two-sum/'',
           pr_phase = ''understand'', pr_startTime = 0\<rparr>\<rparr>,
      ui = fresh_ui\<lparr>timerInterval := True, remainingTime := Some 300, phaseStartTime := Some 0\<rparr>\<rparr>"
  by (simp add: understand_running_def startPhase_def handleStartPhase_def js_get_def
      startPhaseTimer_def recordPhaseStart_def startTimer_def stopTimer_def Let_def example_defs)

section \<open>Remaining time\<close>

lemma getRemainingTime_alarm:
  "map_of (alarms s) q = Some (Number sched) \<Longrightarrow>
   getRemainingTime A q now s =
     Number (max 0 \<lfloor>js_div A (js_sub A sched (of_int now)) 1000\<rfloor>)"
  by (simp add: getRemainingTime_def Let_def)

lemma getRemainingTime_nonneg: "getRemainingTime A q now s = Number r \<Longrightarrow> 0 \<le> r"
  by (auto simp add: getRemainingTime_def Let_def split: option.splits js_number.splits)

lemma getRemainingTime_mono:
  assumes m: "monotone_arith A" and le: "now \<le> now'"
    and r: "getRemainingTime A q now s = Number r"
    and r': "getRemainingTime A q now' s = Number r'"
  shows "r' \<le> r"
proof (cases "map_of (alarms s) q")
  case None
  with r r' show ?thesis by (simp add: getRemainingTime_def)
next
  case (Some v)
  show ?thesis
  proof (cases v)
    case NaN
    with Some r show ?thesis by (simp add: getRemainingTime_def)
  next
    case (Number sched)
    have a: "map_of (alarms s) q = Some (Number sched)" using Some Number by simp
    have "(of_int now :: rat) \<le> of_int now'" using le by simp
    then have "js_sub A sched (of_int now') \<le> js_sub A sched (of_int now)"
      using m by (simp add: monotone_arith_def)
    then have "js_div A (js_sub A sched (of_int now')) 1000
        \<le> js_div A (js_sub A sched (of_int now)) 1000"
      using m by (simp add: monotone_arith_def)
    then have "\<lfloor>js_div A (js_sub A sched (of_int now')) 1000\<rfloor>
        \<le> \<lfloor>js_div A (js_sub A sched (of_int now)) 1000\<rfloor>"
      by (rule floor_mono)
    then show ?thesis
      using r r' by (simp add: getRemainingTime_alarm [OF a])
  qed
qed

lemma getRemainingTime_expired:
  "monotone_arith A \<Longrightarrow> map_of (alarms s) q = Some (Number sched) \<Longrightarrow>
   sched \<le> of_int now \<Longrightarrow> getRemainingTime A q now s = Number 0"
proof -
  assume m: "monotone_arith A" and a: "map_of (alarms s) q = Some (Number sched)"
    and le: "sched \<le> of_int now"
  have "js_sub A sched (of_int now) \<le> 0"
    using m le by (simp add: monotone_arith_def)
  then have "js_div A (js_sub A sched (of_int now)) 1000 \<le> 0"
    using m by (simp add: monotone_arith_def)
  then have "\<lfloor>js_div A (js_sub A sched (of_int now)) 1000\<rfloor> \<le> 0"
    by simp
  then show ?thesis
    by (simp add: getRemainingTime_alarm [OF a])
qed

lemma handleStartPhase_alarm:
  "map_of (phaseDurations s0) p = Some d \<Longrightarrow> d \<noteq> 0 \<Longrightarrow>
   map_of (alarms (fst (handleStartPhase p url t0 s0))) p = Some (alarmService s0 t0 (Own d))"
  by (simp add: handleStartPhase_ok update_conv')

lemma monotone_exact_arith: "monotone_arith exact_arith"
  by (simp add: monotone_arith_def exact_arith_def divide_right_mono
      divide_nonpos_nonneg)




section \<open>Checks of \<open>handleStartPhase\<close>\<close>

text \<open>
  Claim C9, as the code has it. \<open>handleStartPhase\<close> rejects a configured duration of
  zero with the error \<open>Invalid phase\<close> and leaves the state as it was: no alarm, no
  current-phase record. Any other configured duration, negative ones included, is
  accepted: the alarm is registered with the time the alarm service gives it for that
  duration, and the record is created. \<open>startPhaseTimer\<close> registers the alarm for
  every duration it is given.
\<close>

theorem handleStartPhase_duration:
  "(map_of (phaseDurations s) p = Some 0 \<longrightarrow>
      handleStartPhase p url t s = (s, Inl (InvalidPhase p)))
   \<and> (map_of (phaseDurations s) p = Some d \<and> d \<noteq> 0 \<longrightarrow>
      snd (handleStartPhase p url t s) = Inr (p, Own d, t)
      \<and> map_of (alarms (fst (handleStartPhase p url t s))) p = Some (alarmService s t (Own d))
      \<and> currentPhaseSlot (fst (handleStartPhase p url t s)) =
          Some \<lparr>pr_problemUrl = url, pr_phase = p, pr_startTime = t\<rparr>)
   \<and> map_of (alarms (fst (startPhaseTimer p v t s))) p = Some (alarmService s t v)"
  by (auto simp add: handleStartPhase_ok handleStartPhase_fail update_conv' startPhaseTimer_def)

theorem handleStartPhase_duration_witness:
  "handleStartPhase ''pseudocode'' ''u'' 7 negative_config_bg =
     (negative_config_bg, Inl (InvalidPhase ''pseudocode''))
   \<and> snd (handleStartPhase ''understand'' ''u'' 7 fresh_bg) = Inr (''understand'', Own 300, 7)
   \<and> map_of (alarms (fst (handleStartPhase ''understand'' ''u'' 7 fresh_bg))) ''understand''
       = Some (Number 300007)"
proof -
  have z: "map_of (phaseDurations negative_config_bg) ''pseudocode'' = Some 0"
    by (simp add: negative_config_bg_def)
  have d: "map_of (phaseDurations fresh_bg) ''understand'' = Some 300 \<and> (300::int) \<noteq> 0"
    and sv: "alarmService fresh_bg 7 (Own 300) = Number 300007"
    by (simp_all add: example_defs)
  show ?thesis
    using z d sv
      handleStartPhase_duration [of negative_config_bg "''pseudocode''" "''u''" 7 300]
      handleStartPhase_duration [of fresh_bg "''understand''" "''u''" 7 300]
    by simp
qed

text \<open>
  With a configured duration of \<open>-5\<close> seconds the phase is started: the alarm is
  registered, here five seconds in the past, and the current-phase record is created.
\<close>

theorem handleStartPhase_duration_counterexample:
  "snd (handleStartPhase ''understand'' ''/problems/two-sum/'' 1000 negative_config_bg) =
     Inr (''understand'', Own (- 5), 1000)
   \<and> alarms (fst (handleStartPhase ''understand'' ''/problems/two-sum/'' 1000 negative_config_bg)) =
     [(''understand'', Number (- 4000))]
   \<and> currentPhaseSlot (fst (handleStartPhase ''understand'' ''/problems/two-sum/'' 1000 negative_config_bg)) =
     Some \<lparr>pr_problemUrl = ''/problems/two-sum/'', pr_phase = ''understand'', pr_startTime = 1000\<rparr>"
  by (simp add: negative_config_bg_def example_defs handleStartPhase_def js_get_def
      startPhaseTimer_def recordPhaseStart_def Let_def)

text \<open>
  Claim C5, as the code has it. A phase for which \<open>config.phaseDurations[phase]\<close> is
  \<open>undefined\<close> is rejected with the error \<open>Invalid phase\<close>, by
  \<open>handleStartPhase\<close> and so by the page's \<open>startPhase\<close>, and the background state
  stays as it was. There is no check of the phase against the page's current phase or
  completed phases: every phase with a non-zero configured duration is started,
  whatever the sequence state is, and becomes the current phase.
\<close>

theorem beginPhase_checks:
  "(js_get (phaseDurations (bg sys)) p = Undefined \<longrightarrow>
      handleStartPhase p url t (bg sys) = (bg sys, Inl (InvalidPhase p))
      \<and> (currentProblem (ui sys) = Some P \<longrightarrow>
           snd (startPhase p t sys) = Inl (InvalidPhase p)
           \<and> bg (fst (startPhase p t sys)) = bg sys))
   \<and> (map_of (phaseDurations (bg sys)) p = Some d \<and> d \<noteq> 0 \<and> currentProblem (ui sys) = Some P \<longrightarrow>
      snd (startPhase p t sys) = Inr ()
      \<and> currentPhase (ui (fst (startPhase p t sys))) = p
      \<and> completedPhases (ui (fst (startPhase p t sys))) = completedPhases (ui sys)
      \<and> currentPhaseSlot (bg (fst (startPhase p t sys))) =
          Some \<lparr>pr_problemUrl = pb_url P, pr_phase = p, pr_startTime = t\<rparr>
      \<and> map_of (alarms (bg (fst (startPhase p t sys)))) p =
          Some (alarmService (bg sys) t (Own d)))"
proof (intro conjI impI)
  assume n: "js_get (phaseDurations (bg sys)) p = Undefined"
  then show "handleStartPhase p url t (bg sys) = (bg sys, Inl (InvalidPhase p))"
    by (simp add: handleStartPhase_fail)
  assume "currentProblem (ui sys) = Some P"
  with n show "snd (startPhase p t sys) = Inl (InvalidPhase p)"
    and "bg (fst (startPhase p t sys)) = bg sys"
    by (simp_all add: startPhase_fail)
next
  assume "map_of (phaseDurations (bg sys)) p = Some d \<and> d \<noteq> 0 \<and> currentProblem (ui sys) = Some P"
  then have eq: "startPhase p t sys =
     (\<lparr>bg = fst (handleStartPhase p (pb_url P) t (bg sys)),
       ui = startTimer (Some d) ((ui sys)\<lparr>currentPhase := p, phaseStartTime := Some t\<rparr>)\<rparr>, Inr ())"
    and ok: "handleStartPhase p (pb_url P) t (bg sys) =
     ((bg sys)\<lparr>alarms := AList.update p (alarmService (bg sys) t (Own d))
                   (AList.delete p (alarms (bg sys))),
        currentPhaseSlot := Some \<lparr>pr_problemUrl = pb_url P, pr_phase = p, pr_startTime = t\<rparr>\<rparr>,
      Inr (p, Own d, t))"
    by (simp_all add: startPhase_ok handleStartPhase_ok)
  show "snd (startPhase p t sys) = Inr ()" by (simp add: eq)
  show "currentPhase (ui (fst (startPhase p t sys))) = p" by simp
  show "completedPhases (ui (fst (startPhase p t sys))) = completedPhases (ui sys)" by simp
  show "currentPhaseSlot (bg (fst (startPhase p t sys))) =
          Some \<lparr>pr_problemUrl = pb_url P, pr_phase = p, pr_startTime = t\<rparr>"
    by (simp add: eq ok)
  show "map_of (alarms (bg (fst (startPhase p t sys)))) p = Some (alarmService (bg sys) t (Own d))"
    by (simp add: eq ok update_conv')
qed

theorem beginPhase_checks_witness:
  "js_get (phaseDurations (bg understand_running)) ''review'' = Undefined
   \<and> handleStartPhase ''review'' ''u'' 5 (bg understand_running) =
     (bg understand_running, Inl (InvalidPhase ''review''))
   \<and> snd (startPhase ''review'' 5 understand_running) = Inl (InvalidPhase ''review'')
   \<and> bg (fst (startPhase ''review'' 5 understand_running)) = bg understand_running
   \<and> snd (startPhase ''pseudocode'' 5 understand_running) = Inr ()
   \<and> currentPhase (ui (fst (startPhase ''pseudocode'' 5 understand_running))) = ''pseudocode''
   \<and> map_of (alarms (bg (fst (startPhase ''pseudocode'' 5 understand_running)))) ''pseudocode''
       = Some (Number 600005)"
proof -
  have n: "js_get (phaseDurations (bg understand_running)) ''review'' = Undefined"
    and p: "currentProblem (ui understand_running) = Some two_sum"
    and d: "map_of (phaseDurations (bg understand_running)) ''pseudocode'' = Some 600"
    and sv: "alarmService (bg understand_running) 5 (Own 600) = Number 600005"
    by (simp_all add: understand_running_eq example_defs js_get_def objectPrototypeNames_def)
  show ?thesis
    using n p d sv
      beginPhase_checks [of understand_running "''review''" "''u''" 5 two_sum 600]
      beginPhase_checks [of understand_running "''pseudocode''" "''u''" 5 two_sum 600]
    by simp
qed

text \<open>
  While \<open>understand\<close> is the current phase and nothing is completed, starting
  \<open>implement\<close> succeeds: its alarm is registered beside the one of \<open>understand\<close>
  and the current-phase record is replaced.
\<close>

theorem beginPhase_checks_counterexample:
  "currentPhase (ui understand_running) = ''understand''
   \<and> completedPhases (ui understand_running) = []
   \<and> snd (startPhase ''implement'' 60000 understand_running) = Inr ()
   \<and> alarms (bg (fst (startPhase ''implement'' 60000 understand_running))) =
       [(''understand'', Number 300000), (''implement'', Number 960000)]
   \<and> currentPhaseSlot (bg (fst (startPhase ''implement'' 60000 understand_running))) =
       Some \<lparr>pr_problemUrl = ''/problems/two-sum/'', pr_phase = ''implement'',
             pr_startTime = 60000\<rparr>"
  by (simp add: understand_running_eq startPhase_def handleStartPhase_def js_get_def
      startPhaseTimer_def recordPhaseStart_def startTimer_def stopTimer_def Let_def example_defs)

text \<open>
  The name \<open>constructor\<close> is no key of the configured durations, but the lookup
  finds what every object inherits: the check passes and the phase is started, with a
  delay that is not a number.
\<close>

lemma handleStartPhase_inherited_name:
  "js_get (phaseDurations fresh_bg) ''constructor'' = Inherited
   \<and> snd (handleStartPhase ''constructor'' ''/problems/two-sum/'' 0 fresh_bg) =
       Inr (''constructor'', Inherited, 0)
   \<and> alarms (fst (handleStartPhase ''constructor'' ''/problems/two-sum/'' 0 fresh_bg)) =
       [(''constructor'', NaN)]"
  by (simp add: example_defs handleStartPhase_def js_get_def objectPrototypeNames_def
      startPhaseTimer_def recordPhaseStart_def Let_def)

section \<open>Ending a phase\<close>

text \<open>What each of the two ending handlers does depends only on the current-phase record.\<close>

lemma handleCompletePhase_none:
  "currentPhaseSlot s = None \<Longrightarrow>
   handleCompletePhase p url t s = (s\<lparr>alarms := AList.delete p (alarms s)\<rparr>, Inl NoActivePhaseFound)"
  by (simp add: handleCompletePhase_def stopPhaseTimer_def completeCurrentPhase_def
      getCurrentPhase_def)

lemma handleCompletePhase_some:
  "currentPhaseSlot s = Some r \<Longrightarrow>
   handleCompletePhase p url t s =
     (s\<lparr>alarms := AList.delete p (alarms s), currentPhaseSlot := None,
        logs := logs s @
          [\<lparr>le_timestamp = t, le_problemUrl = url, le_phase = p,
            le_duration = of_int (t - pr_startTime r) / 1000,
            le_start = pr_startTime r, le_end = t\<rparr>]\<rparr>,
      Inr (p, of_int (t - pr_startTime r) / 1000))"
  by (simp add: handleCompletePhase_def stopPhaseTimer_def completeCurrentPhase_def
      getCurrentPhase_def logPhase_def phase_record.extend_def)

lemma handlePhaseTimeout_other:
  "currentPhaseSlot s = Some r \<Longrightarrow> pr_phase r \<noteq> q \<Longrightarrow> handlePhaseTimeout q t s = (s, False)"
  by (simp add: handlePhaseTimeout_def getCurrentPhase_def)

lemma handlePhaseTimeout_none:
  "currentPhaseSlot s = None \<Longrightarrow> handlePhaseTimeout q t s = (s, False)"
  by (simp add: handlePhaseTimeout_def getCurrentPhase_def)

lemma handlePhaseTimeout_match:
  "currentPhaseSlot s = Some r \<Longrightarrow> pr_phase r = p \<Longrightarrow>
   handlePhaseTimeout p t s =
     (s\<lparr>currentPhaseSlot := None,
        logs := logs s @
          [\<lparr>le_timestamp = t, le_problemUrl = pr_problemUrl r, le_phase = p,
            le_duration = of_int (t - pr_startTime r) / 1000,
            le_start = pr_startTime r, le_end = t\<rparr>]\<rparr>, True)"
  by (simp add: handlePhaseTimeout_def getCurrentPhase_def completeCurrentPhase_def
      logPhase_def phase_record.extend_def)

lemma completePhase_some:
  "currentPhaseSlot (bg sys) = Some r \<Longrightarrow> currentProblem (ui sys) = Some P \<Longrightarrow>
   completedPhases (ui (fst (completePhase t sys))) = completedPhases (ui sys) @ [currentPhase (ui sys)]
   \<and> currentPhase (ui (fst (completePhase t sys))) =
       (case getNextPhase (currentPhase (ui sys)) of Some n \<Rightarrow> n | None \<Rightarrow> currentPhase (ui sys))
   \<and> snd (completePhase t sys) = Inr ()"
  by (simp add: completePhase_def handleCompletePhase_some stopTimer_def Let_def
      split: option.split)

lemma pseudocode_running_eq:
  "pseudocode_running =
    \<lparr>bg = fresh_bg\<lparr>alarms := [(''pseudocode'', Number 720000)],
         currentPhaseSlot := Some \<lparr>pr_problemUrl = ''/problems/two-sum/'',
           pr_phase = ''pseudocode'', pr_startTime = 120000\<rparr>,
         logs := [\<lparr>le_timestamp = 120000, le_problemUrl = ''/problems/two-sum/'',
           le_phase = ''understand'', le_duration = 120, le_start = 0, le_end = 120000\<rparr>]\<rparr>,
      ui = fresh_ui\<lparr>currentPhase := ''pseudocode'', completedPhases := [''understand''],
         timerInterval := True, remainingTime := Some 600, phaseStartTime := Some 120000\<rparr>\<rparr>"
  by (simp add: pseudocode_running_def understand_running_eq completePhase_def
      handleCompletePhase_def stopPhaseTimer_def completeCurrentPhase_def getCurrentPhase_def
      logPhase_def phase_record.extend_def getNextPhase_def phases_def
      startPhase_def handleStartPhase_def js_get_def startPhaseTimer_def
      recordPhaseStart_def startTimer_def stopTimer_def Let_def example_defs)

text \<open>
  Claim C6. When the current-phase record is empty, \<open>handleCompletePhase\<close> answers
  with the error \<open>No active phase found\<close> and appends no log entry; the page's
  \<open>completePhase\<close>, for a loaded problem, reports that error, and the logs, the
  current phase and the completed phases are what they were.
\<close>

theorem completePhase_no_active:
  "currentPhaseSlot (bg sys) = None \<Longrightarrow> currentProblem (ui sys) = Some P \<Longrightarrow>
     snd (handleCompletePhase p url t (bg sys)) = Inl NoActivePhaseFound
   \<and> logs (fst (handleCompletePhase p url t (bg sys))) = logs (bg sys)
   \<and> snd (completePhase t sys) = Inl NoActivePhaseFound
   \<and> logs (bg (fst (completePhase t sys))) = logs (bg sys)
   \<and> currentPhaseSlot (bg (fst (completePhase t sys))) = None
   \<and> currentPhase (ui (fst (completePhase t sys))) = currentPhase (ui sys)
   \<and> completedPhases (ui (fst (completePhase t sys))) = completedPhases (ui sys)"
  by (simp add: completePhase_def handleCompletePhase_none stopTimer_def Let_def)

theorem completePhase_no_active_witness:
  "currentPhaseSlot (bg fresh_system) = None
   \<and> snd (completePhase 5000 fresh_system) = Inl NoActivePhaseFound
   \<and> logs (bg (fst (completePhase 5000 fresh_system))) = []
   \<and> currentPhase (ui (fst (completePhase 5000 fresh_system))) = ''understand''
   \<and> completedPhases (ui (fst (completePhase 5000 fresh_system))) = []"
proof -
  have h: "currentPhaseSlot (bg fresh_system) = None"
    and c: "currentProblem (ui fresh_system) = Some two_sum"
    and l: "logs (bg fresh_system) = []" "currentPhase (ui fresh_system) = ''understand''"
      "completedPhases (ui fresh_system) = []"
    by (simp_all add: fresh_system_def fresh_bg_def fresh_ui_def)
  show ?thesis
    using h l completePhase_no_active [OF h c, of "''understand''" "''u''" 5000]
    by simp
qed

text \<open>
  Claim C3, as the code has it. The entry that \<open>handlePhaseTimeout\<close> appends for the
  current phase starts at the recorded start time and ends at the clock reading of the
  handler's run, so its duration is the time from the start to that run; it is the
  duration \<open>d\<close> only when the handler runs exactly \<open>d\<close> seconds after the start.
\<close>

theorem timeout_record:
  "currentPhaseSlot s = Some r \<Longrightarrow> pr_phase r = p \<Longrightarrow>
     logs (fst (handlePhaseTimeout p now s)) = logs s @
       [\<lparr>le_timestamp = now, le_problemUrl = pr_problemUrl r, le_phase = p,
         le_duration = of_int (now - pr_startTime r) / 1000,
         le_start = pr_startTime r, le_end = now\<rparr>]
   \<and> le_end (last (logs (fst (handlePhaseTimeout p now s)))) = now
   \<and> (le_duration (last (logs (fst (handlePhaseTimeout p now s)))) = of_int d
        \<longleftrightarrow> now = pr_startTime r + 1000 * d)"
proof -
  assume a: "currentPhaseSlot s = Some r" "pr_phase r = p"
  have "(of_int (now - pr_startTime r) / 1000 = (of_int d :: rat)) \<longleftrightarrow>
        (of_int (now - pr_startTime r) :: rat) = of_int (d * 1000)"
    by (simp add: divide_eq_eq)
  also have "\<dots> \<longleftrightarrow> now - pr_startTime r = d * 1000"
    by (simp only: of_int_eq_iff)
  also have "\<dots> \<longleftrightarrow> now = pr_startTime r + 1000 * d" by auto
  finally show ?thesis
    using a by (simp add: handlePhaseTimeout_match)
qed

theorem timeout_record_witness:
  "currentPhaseSlot (bg understand_running) =
      Some \<lparr>pr_problemUrl = ''/problems/two-sum/'', pr_phase = ''understand'', pr_startTime = 0\<rparr>
   \<and> logs (fst (handlePhaseTimeout ''understand'' 300250 (bg understand_running))) =
       [\<lparr>le_timestamp = 300250, le_problemUrl = ''/problems/two-sum/'', le_phase = ''understand'',
         le_duration = 1201 / 4, le_start = 0, le_end = 300250\<rparr>]"
proof -
  have h: "currentPhaseSlot (bg understand_running) =
      Some \<lparr>pr_problemUrl = ''/problems/two-sum/'', pr_phase = ''understand'', pr_startTime = 0\<rparr>"
    and l: "logs (bg understand_running) = []"
    by (simp_all add: understand_running_eq example_defs)
  show ?thesis
    using h l timeout_record [OF h, of "''understand''" 300250 300]
    by simp
qed

text \<open>
  The alarm of a 300 s phase started at time 0 is handled a quarter of a second late:
  the entry ends at 300250, not at 300000, and its duration is not 300.
\<close>

theorem timeout_record_counterexample:
  "map_of (phaseDurations (bg understand_running)) ''understand'' = Some 300
   \<and> le_start (last (logs (fst (handlePhaseTimeout ''understand'' 300250 (bg understand_running))))) = 0
   \<and> le_end (last (logs (fst (handlePhaseTimeout ''understand'' 300250 (bg understand_running)))))
       = 300250
   \<and> le_end (last (logs (fst (handlePhaseTimeout ''understand'' 300250 (bg understand_running)))))
       \<noteq> 0 + 1000 * 300
   \<and> le_duration (last (logs (fst (handlePhaseTimeout ''understand'' 300250 (bg understand_running)))))
       \<noteq> 300"
  by (simp add: understand_running_eq example_defs handlePhaseTimeout_def getCurrentPhase_def
      completeCurrentPhase_def logPhase_def phase_record.extend_def)

section \<open>Timeout and the sequence state\<close>

lemma onAlarm_ui: "ui (onAlarm name t sys) = ui sys"
  by (simp add: onAlarm_def newtab_handlePhaseTimeout_def split: prod.split)

lemma onAlarm_bg:
  "name \<noteq> ''quizReminderCheck'' \<Longrightarrow>
   bg (onAlarm name t sys) = fst (handlePhaseTimeout name t (bg sys))"
  by (simp add: onAlarm_def split: prod.split)



section \<open>One log entry for each interval\<close>

lemma apply_event_ended:
  "currentPhaseSlot s = None \<Longrightarrow>
   currentPhaseSlot (apply_event p url s ev) = None \<and> logs (apply_event p url s ev) = logs s"
  by (cases ev) (simp_all add: handleCompletePhase_none handlePhaseTimeout_none)

lemma run_events_ended:
  "currentPhaseSlot s = None \<Longrightarrow> logs (run_events p url evs s) = logs s"
proof (induction evs arbitrary: s)
  case Nil
  then show ?case by (simp add: run_events_def)
next
  case (Cons ev evs)
  have "currentPhaseSlot (apply_event p url s ev) = None"
    and l: "logs (apply_event p url s ev) = logs s"
    using Cons.prems by (simp_all add: apply_event_ended)
  then have "logs (run_events p url evs (apply_event p url s ev)) = logs (apply_event p url s ev)"
    by (intro Cons.IH)
  then show ?case by (simp add: run_events_def l)
qed

lemma apply_event_active:
  "currentPhaseSlot s = Some r \<Longrightarrow> pr_phase r = p \<Longrightarrow> pr_problemUrl r = url \<Longrightarrow>
   currentPhaseSlot (apply_event p url s ev) = None
   \<and> logs (apply_event p url s ev) = logs s @
       [\<lparr>le_timestamp = event_time ev, le_problemUrl = url, le_phase = p,
         le_duration = of_int (event_time ev - pr_startTime r) / 1000,
         le_start = pr_startTime r, le_end = event_time ev\<rparr>]"
  by (cases ev) (simp_all add: handleCompletePhase_some handlePhaseTimeout_match)

text \<open>
  Claim C1. A phase is started by \<open>handleStartPhase\<close> and then ended by a sequence of
  events, each a manual completion or a firing of the phase's alarm, in any order and
  at any times. Whatever the sequence is, as long as it has one event, the logs grow by
  one entry: the one of the first event. In particular a manual completion after the
  timeout gets the error \<open>No active phase found\<close> and appends nothing.
\<close>

theorem exactly_once:
  "map_of (phaseDurations s0) p = Some d \<Longrightarrow> d \<noteq> 0 \<Longrightarrow> evs \<noteq> [] \<Longrightarrow>
   s1 = fst (handleStartPhase p url t0 s0) \<Longrightarrow>
     logs (run_events p url evs s1) = logs s0 @
       [\<lparr>le_timestamp = event_time (hd evs), le_problemUrl = url, le_phase = p,
         le_duration = of_int (event_time (hd evs) - t0) / 1000,
         le_start = t0, le_end = event_time (hd evs)\<rparr>]
   \<and> length (logs (run_events p url evs s1)) = length (logs s0) + 1
   \<and> snd (handleCompletePhase p url t2 (fst (handlePhaseTimeout p t1 s1))) = Inl NoActivePhaseFound
   \<and> logs (fst (handleCompletePhase p url t2 (fst (handlePhaseTimeout p t1 s1)))) =
       logs (fst (handlePhaseTimeout p t1 s1))"
proof -
  assume d: "map_of (phaseDurations s0) p = Some d" "d \<noteq> 0" and ne: "evs \<noteq> []"
    and s1: "s1 = fst (handleStartPhase p url t0 s0)"
  let ?r = "\<lparr>pr_problemUrl = url, pr_phase = p, pr_startTime = t0\<rparr>"
  have slot: "currentPhaseSlot s1 = Some ?r" and l1: "logs s1 = logs s0"
    using d s1 by (simp_all add: handleStartPhase_ok)
  obtain ev rest where evs: "evs = ev # rest"
    using ne by (cases evs) auto
  have first: "currentPhaseSlot (apply_event p url s1 ev) = None"
    "logs (apply_event p url s1 ev) = logs s1 @
       [\<lparr>le_timestamp = event_time ev, le_problemUrl = url, le_phase = p,
         le_duration = of_int (event_time ev - t0) / 1000,
         le_start = t0, le_end = event_time ev\<rparr>]"
    using apply_event_active [OF slot, of p url ev] by simp_all
  have "logs (run_events p url evs s1) = logs (run_events p url rest (apply_event p url s1 ev))"
    by (simp add: run_events_def evs)
  also have "\<dots> = logs (apply_event p url s1 ev)"
    using first(1) by (rule run_events_ended)
  finally have main: "logs (run_events p url evs s1) = logs s0 @
       [\<lparr>le_timestamp = event_time (hd evs), le_problemUrl = url, le_phase = p,
         le_duration = of_int (event_time (hd evs) - t0) / 1000,
         le_start = t0, le_end = event_time (hd evs)\<rparr>]"
    by (simp add: first(2) l1 evs)
  have "currentPhaseSlot (fst (handlePhaseTimeout p t1 s1)) = None"
    using slot by (simp add: handlePhaseTimeout_match)
  then have late: "handleCompletePhase p url t2 (fst (handlePhaseTimeout p t1 s1)) =
      ((fst (handlePhaseTimeout p t1 s1))
         \<lparr>alarms := AList.delete p (alarms (fst (handlePhaseTimeout p t1 s1)))\<rparr>,
       Inl NoActivePhaseFound)"
    by (rule handleCompletePhase_none)
  show ?thesis
    by (simp add: main late)
qed

theorem exactly_once_witness:
  "logs (run_events ''understand'' ''/problems/two-sum/''
           [TimeoutFires 300000, ManualStop 301000]
           (fst (handleStartPhase ''understand'' ''/problems/two-sum/'' 0 fresh_bg))) =
     [\<lparr>le_timestamp = 300000, le_problemUrl = ''/problems/two-sum/'', le_phase = ''understand'',
       le_duration = 300, le_start = 0, le_end = 300000\<rparr>]
   \<and> logs (run_events ''understand'' ''/problems/two-sum/''
           [ManualStop 120000, TimeoutFires 300000]
           (fst (handleStartPhase ''understand'' ''/problems/two-sum/'' 0 fresh_bg))) =
     [\<lparr>le_timestamp = 120000, le_problemUrl = ''/problems/two-sum/'', le_phase = ''understand'',
       le_duration = 120, le_start = 0, le_end = 120000\<rparr>]
   \<and> snd (handleCompletePhase ''understand'' ''/problems/two-sum/'' 301000
        (fst (handlePhaseTimeout ''understand'' 300000
           (fst (handleStartPhase ''understand'' ''/problems/two-sum/'' 0 fresh_bg))))) =
     Inl NoActivePhaseFound"
proof -
  have h1: "map_of (phaseDurations fresh_bg) ''understand'' = Some 300"
    and l: "logs fresh_bg = []"
    by (simp_all add: example_defs)
  have h2: "(300::int) \<noteq> 0" by simp
  have n1: "[TimeoutFires 300000, ManualStop 301000] \<noteq> []"
    and n2: "[ManualStop 120000, TimeoutFires 300000] \<noteq> []" by simp_all
  show ?thesis
    using l exactly_once [OF h1 h2 n1 refl, of "''/problems/two-sum/''" 0 301000 300000]
      exactly_once [OF h1 h2 n2 refl, of "''/problems/two-sum/''" 0 301000 300000]
    by simp
qed

section \<open>Skipping a problem\<close>

lemma handleSkipProblem_frame:
  "alarms (fst (handleSkipProblem s)) = alarms s"
  "currentPhaseSlot (fst (handleSkipProblem s)) = currentPhaseSlot s"
  "logs (fst (handleSkipProblem s)) = logs s"
  "phaseDurations (fst (handleSkipProblem s)) = phaseDurations s"
  "alarmService (fst (handleSkipProblem s)) = alarmService s"
  by (simp_all add: handleSkipProblem_def getState_def setCurrentIndex_def Let_def)

lemma handleSkipProblem_eq:
  "handleSkipProblem s =
     (s\<lparr>currentIndex := (if problems s = [] then None
                          else Some ((snd (getState s) + 1) mod length (problems s)))\<rparr>,
      Inr (if problems s = [] then None
           else Some (problems s ! ((snd (getState s) + 1) mod length (problems s)))))"
  by (simp add: handleSkipProblem_def getState_def setCurrentIndex_def Let_def)

lemma handlePhaseTimeout_frame:
  "alarms (fst (handlePhaseTimeout q t s)) = alarms s"
  "phaseDurations (fst (handlePhaseTimeout q t s)) = phaseDurations s"
  "alarmService (fst (handlePhaseTimeout q t s)) = alarmService s"
  by (simp_all add: handlePhaseTimeout_def getCurrentPhase_def completeCurrentPhase_def
      logPhase_def split: option.split)

lemma handlePhaseTimeout_index:
  "handlePhaseTimeout q t (s\<lparr>currentIndex := i\<rparr>) =
     ((fst (handlePhaseTimeout q t s))\<lparr>currentIndex := i\<rparr>, snd (handlePhaseTimeout q t s))"
  by (simp add: handlePhaseTimeout_def getCurrentPhase_def completeCurrentPhase_def
      logPhase_def split: option.split)

lemma onAlarm_frame:
  "alarms (bg (onAlarm name t sys)) = alarms (bg sys)"
  "phaseDurations (bg (onAlarm name t sys)) = phaseDurations (bg sys)"
  "alarmService (bg (onAlarm name t sys)) = alarmService (bg sys)"
proof -
  have "bg (onAlarm name t sys) =
      (if name = ''quizReminderCheck'' then bg sys else fst (handlePhaseTimeout name t (bg sys)))"
    by (simp add: onAlarm_def split: prod.split)
  then show "alarms (bg (onAlarm name t sys)) = alarms (bg sys)"
    and "phaseDurations (bg (onAlarm name t sys)) = phaseDurations (bg sys)"
    and "alarmService (bg (onAlarm name t sys)) = alarmService (bg sys)"
    by (simp_all add: handlePhaseTimeout_frame)
qed

lemma onAlarm_index:
  "onAlarm name t \<lparr>bg = b\<lparr>currentIndex := i\<rparr>, ui = u\<rparr> =
     \<lparr>bg = (bg (onAlarm name t \<lparr>bg = b, ui = u\<rparr>))\<lparr>currentIndex := i\<rparr>, ui = u\<rparr>"
  by (simp add: onAlarm_def handlePhaseTimeout_index newtab_handlePhaseTimeout_def
      split: prod.split)

lemma deliver_Cons:
  "deliver ((name, t) # between) sys = deliver between (onAlarm name t sys)"
  by (simp add: deliver_def)

lemma deliver_ui [simp]: "ui (deliver between sys) = ui sys"
  by (induction between arbitrary: sys) (auto simp add: deliver_def onAlarm_ui)

lemma deliver_frame:
  "alarms (bg (deliver between sys)) = alarms (bg sys)"
  "phaseDurations (bg (deliver between sys)) = phaseDurations (bg sys)"
  "alarmService (bg (deliver between sys)) = alarmService (bg sys)"
  by (induction between arbitrary: sys) (auto simp add: deliver_def onAlarm_frame)

lemma deliver_index:
  "deliver between \<lparr>bg = b\<lparr>currentIndex := i\<rparr>, ui = u\<rparr> =
     \<lparr>bg = (bg (deliver between \<lparr>bg = b, ui = u\<rparr>))\<lparr>currentIndex := i\<rparr>, ui = u\<rparr>"
proof (induction between arbitrary: b)
  case Nil
  then show ?case by (simp add: deliver_def)
next
  case (Cons ev between)
  obtain name t where ev: "ev = (name, t)" by (cases ev)
  have u: "onAlarm name t \<lparr>bg = b, ui = u\<rparr> = \<lparr>bg = bg (onAlarm name t \<lparr>bg = b, ui = u\<rparr>), ui = u\<rparr>"
    using onAlarm_ui [of name t "\<lparr>bg = b, ui = u\<rparr>"]
    by (cases "onAlarm name t \<lparr>bg = b, ui = u\<rparr>") simp
  show ?case
    unfolding ev deliver_Cons onAlarm_index
    by (subst (2) u) (rule Cons.IH)
qed

lemma skipProblem_cases:
  "skipProblem t between sys =
     (let sys1 = deliver between \<lparr>bg = fst (handleSkipProblem (bg sys)), ui = ui sys\<rparr>;
          u1 = (resetState (ui sys))\<lparr>currentProblem :=
                  (if problems (bg sys) = [] then None
                   else Some (problems (bg sys) !
                     ((snd (getState (bg sys)) + 1) mod length (problems (bg sys)))))\<rparr>
      in if problems (bg sys) = [] then (\<lparr>bg = bg sys1, ui = u1\<rparr>, Inl TypeError)
         else (fst (startPhase ''understand'' t \<lparr>bg = bg sys1, ui = u1\<rparr>), Inr ()))"
  by (simp add: skipProblem_def handleSkipProblem_eq Let_def)

lemma skip_window_logs:
  "logs (bg (deliver between \<lparr>bg = fst (handleSkipProblem (bg sys)), ui = ui sys\<rparr>)) =
     logs (bg (deliver between sys))"
  by (cases sys) (simp add: handleSkipProblem_eq deliver_index)

lemma stopPhaseTimer_absent:
  "map_of (alarms s) q = None \<Longrightarrow> stopPhaseTimer q s = (s, False)"
  by (simp add: stopPhaseTimer_def map_of_eq_None_iff)

lemma skipProblem_started:
  "problems (bg sys) \<noteq> [] \<Longrightarrow> map_of (phaseDurations (bg sys)) ''understand'' = Some d \<Longrightarrow>
   d \<noteq> 0 \<Longrightarrow>
   currentPhaseSlot (bg (fst (skipProblem t between sys))) =
     Some \<lparr>pr_problemUrl =
             pb_url (problems (bg sys) !
               ((snd (getState (bg sys)) + 1) mod length (problems (bg sys)))),
           pr_phase = ''understand'', pr_startTime = t\<rparr>"
proof -
  assume a: "problems (bg sys) \<noteq> []" "map_of (phaseDurations (bg sys)) ''understand'' = Some d"
    "d \<noteq> 0"
  define P where
    "P = problems (bg sys) ! ((snd (getState (bg sys)) + 1) mod length (problems (bg sys)))"
  define u1 where "u1 = (resetState (ui sys))\<lparr>currentProblem := Some P\<rparr>"
  define b1 where
    "b1 = bg (deliver between \<lparr>bg = fst (handleSkipProblem (bg sys)), ui = ui sys\<rparr>)"
  let ?mid = "\<lparr>bg = b1, ui = u1\<rparr>"
  have sk: "fst (skipProblem t between sys) = fst (startPhase ''understand'' t ?mid)"
    using a by (simp add: skipProblem_cases Let_def u1_def P_def b1_def)
  have "map_of (phaseDurations (bg ?mid)) ''understand'' = Some d"
    and "currentProblem (ui ?mid) = Some P"
    using a by (simp_all add: b1_def deliver_frame handleSkipProblem_frame u1_def)
  then have "currentPhaseSlot (bg (fst (startPhase ''understand'' t ?mid))) =
      Some \<lparr>pr_problemUrl = pb_url P, pr_phase = ''understand'', pr_startTime = t\<rparr>"
    using a by (simp add: startPhase_ok handleStartPhase_ok)
  then show ?thesis
    by (simp only: sk P_def)
qed




text \<open>
  Claim C8, as the code has it. \<open>handleSkipProblem\<close> changes neither the alarm table
  nor the current-phase record, and the page's \<open>skipProblem\<close> touches no alarm but
  the one named \<open>understand\<close>, which the start of the first phase replaces: the alarm
  of an abandoned phase of another name stays pending. Once the first phase of the next
  problem has been started, \<open>handlePhaseTimeout\<close> ignores such an alarm. Clearing an
  alarm that does not exist is no error and changes nothing, so clearing twice is the
  same as clearing once.
\<close>

theorem skip_keeps_alarms:
  "alarms (fst (handleSkipProblem s)) = alarms s
   \<and> currentPhaseSlot (fst (handleSkipProblem s)) = currentPhaseSlot s
   \<and> (q \<noteq> ''understand'' \<longrightarrow>
        map_of (alarms (bg (fst (skipProblem t between sys)))) q = map_of (alarms (bg sys)) q)
   \<and> (q \<noteq> ''understand'' \<and> problems (bg sys) \<noteq> []
        \<and> map_of (phaseDurations (bg sys)) ''understand'' = Some d \<and> d \<noteq> 0 \<longrightarrow>
        handlePhaseTimeout q t' (bg (fst (skipProblem t between sys))) =
          (bg (fst (skipProblem t between sys)), False))
   \<and> (map_of (alarms s) q = None \<longrightarrow> stopPhaseTimer q s = (s, False))
   \<and> stopPhaseTimer q (fst (stopPhaseTimer q s)) = (fst (stopPhaseTimer q s), False)"
proof (intro conjI impI)
  show "alarms (fst (handleSkipProblem s)) = alarms s"
    and "currentPhaseSlot (fst (handleSkipProblem s)) = currentPhaseSlot s"
    by (simp_all add: handleSkipProblem_frame)
  show "map_of (alarms (bg (fst (skipProblem t between sys)))) q = map_of (alarms (bg sys)) q"
    if "q \<noteq> ''understand''"
    using that
    by (simp add: skipProblem_cases Let_def startPhase_other_alarm deliver_frame
        handleSkipProblem_frame)
  show "stopPhaseTimer q s = (s, False)" if "map_of (alarms s) q = None"
    using that by (rule stopPhaseTimer_absent)
  have "map_of (alarms (fst (stopPhaseTimer q s))) q = None"
    by (simp add: stopPhaseTimer_def delete_conv')
  then show "stopPhaseTimer q (fst (stopPhaseTimer q s)) = (fst (stopPhaseTimer q s), False)"
    by (rule stopPhaseTimer_absent)
next
  assume a: "q \<noteq> ''understand'' \<and> problems (bg sys) \<noteq> []
        \<and> map_of (phaseDurations (bg sys)) ''understand'' = Some d \<and> d \<noteq> 0"
  then have "currentPhaseSlot (bg (fst (skipProblem t between sys))) =
      Some \<lparr>pr_problemUrl =
              pb_url (problems (bg sys) !
                ((snd (getState (bg sys)) + 1) mod length (problems (bg sys)))),
            pr_phase = ''understand'', pr_startTime = t\<rparr>"
    by (simp add: skipProblem_started)
  then show "handlePhaseTimeout q t' (bg (fst (skipProblem t between sys))) =
          (bg (fst (skipProblem t between sys)), False)"
    using a by (intro handlePhaseTimeout_other) auto
qed

theorem skip_keeps_alarms_witness:
  "map_of (alarms (bg (fst (skipProblem 200000 [] pseudocode_running)))) ''pseudocode''
     = Some (Number 720000)
   \<and> handlePhaseTimeout ''pseudocode'' 720000 (bg (fst (skipProblem 200000 [] pseudocode_running))) =
       (bg (fst (skipProblem 200000 [] pseudocode_running)), False)
   \<and> stopPhaseTimer ''implement'' (bg pseudocode_running) = (bg pseudocode_running, False)"
proof -
  have a: "''pseudocode'' \<noteq> ''understand'' \<and> problems (bg pseudocode_running) \<noteq> []
     \<and> map_of (phaseDurations (bg pseudocode_running)) ''understand'' = Some 300 \<and> (300::int) \<noteq> 0"
    and b: "map_of (alarms (bg pseudocode_running)) ''pseudocode'' = Some (Number 720000)"
    and c: "map_of (alarms (bg pseudocode_running)) ''implement'' = None"
    by (simp_all add: pseudocode_running_eq example_defs)
  show ?thesis
    using a b c
      skip_keeps_alarms [of "bg pseudocode_running" "''pseudocode''" 200000 "[]"
        pseudocode_running 300 720000]
      skip_keeps_alarms [of "bg pseudocode_running" "''implement''" 200000 "[]"
        pseudocode_running 300 720000]
    by simp
qed

text \<open>
  The problem is skipped during \<open>pseudocode\<close>. After the page's \<open>skipProblem\<close> the
  alarm of \<open>pseudocode\<close> is still in the table, beside the new one. And when that
  alarm fires after \<open>handleSkipProblem\<close> and before the next phase is started, the
  abandoned phase is logged.
\<close>

theorem skip_keeps_alarms_counterexample:
  "alarms (bg (fst (skipProblem 200000 [] pseudocode_running))) =
     [(''pseudocode'', Number 720000), (''understand'', Number 500000)]
   \<and> logs (fst (handlePhaseTimeout ''pseudocode'' 720000
              (fst (handleSkipProblem (bg pseudocode_running))))) =
     logs (bg pseudocode_running) @
       [\<lparr>le_timestamp = 720000, le_problemUrl = ''/problems/two-sum/'',
         le_phase = ''pseudocode'', le_duration = 600, le_start = 120000, le_end = 720000\<rparr>]"
  by (simp add: pseudocode_running_eq skipProblem_def deliver_def handleSkipProblem_def
      getState_def
      setCurrentIndex_def resetState_def handlePhaseTimeout_def getCurrentPhase_def
      completeCurrentPhase_def logPhase_def phase_record.extend_def
      startPhase_def handleStartPhase_def js_get_def startPhaseTimer_def
      recordPhaseStart_def startTimer_def stopTimer_def Let_def example_defs)

section \<open>The weekly report\<close>

lemma js_get_ordinary:
  "ordinary_key k \<Longrightarrow>
   js_get obj k = (case map_of obj k of None \<Rightarrow> Undefined | Some v \<Rightarrow> Own v)"
  by (simp add: js_get_def ordinary_key_def split: option.split)

lemma add_log_ordinary:
  "ordinary_key (le_problemUrl lg) \<Longrightarrow> ordinary_key (le_phase lg) \<Longrightarrow>
   add_log lg pm = Inr (insert_log lg pm)"
  by (simp add: add_log_def insert_log_def js_get_ordinary Let_def split: option.split)

lemma add_logs_ordinary:
  "ordinary_logs ls \<Longrightarrow> add_logs ls pm = Inr (foldl (\<lambda>pm lg. insert_log lg pm) pm ls)"
  by (induction ls arbitrary: pm) (simp_all add: ordinary_logs_def add_log_ordinary)

lemma phaseLogs_insert_log:
  "phaseLogs (insert_log l pm) url ph =
     (if le_problemUrl l = url \<and> le_phase l = ph
      then Some ((case phaseLogs pm url ph of None \<Rightarrow> [] | Some ls \<Rightarrow> ls) @ [l])
      else phaseLogs pm url ph)"
  by (auto simp add: phaseLogs_def insert_log_def Let_def update_conv' split: option.split)

lemma phaseLogs_foldl_insert_log:
  "phaseLogs (foldl (\<lambda>pm lg. insert_log lg pm) pm ls) url ph =
     (let new = filter (\<lambda>l. le_problemUrl l = url \<and> le_phase l = ph) ls
      in if new = [] then phaseLogs pm url ph
         else Some ((case phaseLogs pm url ph of None \<Rightarrow> [] | Some old \<Rightarrow> old) @ new))"
proof (induction ls arbitrary: pm)
  case Nil
  then show ?case by simp
next
  case (Cons l ls)
  show ?case
    by (simp add: Cons.IH [of "insert_log l pm"] phaseLogs_insert_log Let_def)
qed

lemma phaseLogs_add_solution: "phaseLogs (add_solution sol pm) url ph = phaseLogs pm url ph"
  by (auto simp add: phaseLogs_def add_solution_def js_get_def Let_def update_conv'
      split: option.split)

lemma phaseLogs_foldl_add_solution:
  "phaseLogs (foldl (\<lambda>pm sol. add_solution sol pm) pm sols) url ph = phaseLogs pm url ph"
  by (induction sols arbitrary: pm) (simp_all add: phaseLogs_add_solution)

lemma phaseLogs_empty: "phaseLogs [] url ph = None"
  by (simp add: phaseLogs_def)

lemma list_all_update:
  "list_all Q al \<Longrightarrow> Q (k, v) \<Longrightarrow> list_all Q (AList.update k v al)"
  by (induction al) auto

lemma wf_problemMap_update:
  "wf_problemMap pm \<Longrightarrow> pe_url e = k \<Longrightarrow> distinct (map fst (pe_phases e)) \<Longrightarrow>
   wf_problemMap (AList.update k e pm)"
  by (simp add: wf_problemMap_def distinct_update list_all_update)

lemma wf_problemMap_lookup:
  "wf_problemMap pm \<Longrightarrow> map_of pm k = Some e \<Longrightarrow>
   pe_url e = k \<and> distinct (map fst (pe_phases e))"
proof -
  assume w: "wf_problemMap pm" and m: "map_of pm k = Some e"
  from m have "(k, e) \<in> set pm" by (rule map_of_SomeD)
  with w show ?thesis
    by (auto simp add: wf_problemMap_def list_all_iff)
qed

lemma wf_problemMap_insert_log: "wf_problemMap pm \<Longrightarrow> wf_problemMap (insert_log l pm)"
  by (auto simp add: insert_log_def Let_def distinct_update
      dest: wf_problemMap_lookup intro!: wf_problemMap_update split: option.split)

lemma wf_problemMap_add_solution: "wf_problemMap pm \<Longrightarrow> wf_problemMap (add_solution sol pm)"
  by (auto simp add: add_solution_def js_get_def Let_def
      dest: wf_problemMap_lookup intro!: wf_problemMap_update split: option.split)

lemma wf_problemMap_build:
  "ordinary_logs ls \<Longrightarrow> build_problemMap ls sols = Inr pm \<Longrightarrow> wf_problemMap pm"
proof -
  assume o: "ordinary_logs ls" and b: "build_problemMap ls sols = Inr pm"
  have a: "wf_problemMap m \<Longrightarrow> wf_problemMap (foldl (\<lambda>pm lg. insert_log lg pm) m ls)" for m
    by (induction ls arbitrary: m) (simp_all add: wf_problemMap_insert_log)
  have c: "wf_problemMap m \<Longrightarrow> wf_problemMap (foldl (\<lambda>pm sol. add_solution sol pm) m sols)" for m
    by (induction sols arbitrary: m) (simp_all add: wf_problemMap_add_solution)
  have "wf_problemMap []" by (simp add: wf_problemMap_def)
  then have "wf_problemMap (foldl (\<lambda>pm sol. add_solution sol pm)
      (foldl (\<lambda>pm lg. insert_log lg pm) [] ls) sols)"
    by (intro a c)
  then show ?thesis
    using o b by (simp add: build_problemMap_def add_logs_ordinary)
qed

lemma phaseLogs_build:
  "ordinary_logs ls \<Longrightarrow> build_problemMap ls sols = Inr pm \<Longrightarrow>
   phaseLogs pm url ph =
     (let new = filter (\<lambda>l. le_problemUrl l = url \<and> le_phase l = ph) ls
      in if new = [] then None else Some new)"
  by (auto simp add: build_problemMap_def add_logs_ordinary phaseLogs_foldl_add_solution
      phaseLogs_foldl_insert_log Let_def phaseLogs_empty)

lemma build_problemMap_ordinary:
  "ordinary_logs ls \<Longrightarrow>
   build_problemMap ls sols =
     Inr (foldl (\<lambda>pm sol. add_solution sol pm) (foldl (\<lambda>pm lg. insert_log lg pm) [] ls) sols)"
  by (simp add: build_problemMap_def add_logs_ordinary)

lemma set_ownEntries [simp]: "set (ownEntries obj) = set obj"
  by (auto simp add: ownEntries_def)

lemma find_unique:
  "x \<in> set ys \<Longrightarrow> Q x \<Longrightarrow> \<forall>y\<in>set ys. Q y \<longrightarrow> y = x \<Longrightarrow> find Q ys = Some x"
proof (induction ys)
  case Nil
  then show ?case by simp
next
  case (Cons a ys)
  show ?case
  proof (cases "Q a")
    case True
    have "a \<in> set (a # ys)" by simp
    with Cons.prems(3) True have "a = x" by blast
    with True show ?thesis by simp
  next
    case False
    with Cons.prems(1,2) have "x \<noteq> a" by blast
    with Cons.prems(1) have m: "x \<in> set ys" by simp
    have u: "\<forall>y\<in>set ys. Q y \<longrightarrow> y = x" using Cons.prems(3) by simp
    have "find Q ys = Some x"
      using m Cons.prems(2) u by (rule Cons.IH)
    with False show ?thesis by simp
  qed
qed

lemma find_key:
  assumes "distinct (map fst obj)" and "set ys = set obj"
  shows "find (\<lambda>(k, v). k = key) ys = map_option (Pair key) (map_of obj key)"
proof (cases "map_of obj key")
  case None
  then have "key \<notin> fst ` set obj"
    by (simp add: map_of_eq_None_iff)
  then have n: "key \<notin> fst ` set ys"
    unfolding assms(2) .
  have "\<not> (\<exists>y. y \<in> set ys \<and> (case y of (k, v) \<Rightarrow> k = key))"
  proof
    assume "\<exists>y. y \<in> set ys \<and> (case y of (k, v) \<Rightarrow> k = key)"
    then obtain y where m: "y \<in> set ys" and k: "case y of (k, v) \<Rightarrow> k = key"
      by blast
    from k have "fst y = key" by (cases y) simp
    with m have "key \<in> fst ` set ys" by (rule_tac image_eqI [where x = y]) simp_all
    with n show False by blast
  qed
  then have "find (\<lambda>(k, v). k = key) ys = None"
    unfolding find_None_iff .
  with None show ?thesis by simp
next
  case (Some v)
  then have "(key, v) \<in> set obj"
    by (rule map_of_SomeD)
  then have m: "(key, v) \<in> set ys"
    by (simp only: assms(2))
  have q: "case (key, v) of (k, v) \<Rightarrow> k = key" by simp
  have "y = (key, v)" if my: "y \<in> set ys" and k: "case y of (k, v) \<Rightarrow> k = key" for y
  proof -
    obtain k' v' where y: "y = (k', v')" by (cases y)
    with k have k': "k' = key" by simp
    from my have "(key, v') \<in> set obj" by (simp only: y k' assms(2))
    with assms(1) have "map_of obj key = Some v'"
      by (rule map_of_is_SomeI)
    with Some have "v' = v" by simp
    with y k' show ?thesis by simp
  qed
  then have u: "\<forall>y\<in>set ys. (case y of (k, v) \<Rightarrow> k = key) \<longrightarrow> y = (key, v)"
    by blast
  from m q u have "find (\<lambda>(k, v). k = key) ys = Some (key, v)"
    by (rule find_unique)
  with Some show ?thesis by simp
qed


lemma find_rendered:
  "list_all (\<lambda>(k, e). pe_url e = k) ys \<Longrightarrow>
   find (\<lambda>it. ri_url it = url) (map (\<lambda>(k, e). render_problem A e) ys) =
     map_option (\<lambda>(k, e). render_problem A e) (find (\<lambda>(k, e). k = url) ys)"
proof (induction ys)
  case Nil
  then show ?case by simp
next
  case (Cons y ys)
  obtain k e where y: "y = (k, e)" by (cases y)
  have u: "ri_url (render_problem A e) = pe_url e" by (simp add: render_problem_def)
  show ?case
    using Cons by (simp add: y u)
qed

lemma find_totals:
  "find (\<lambda>(p, total). p = ph) (map (\<lambda>(phase, ls). (phase, f ls)) ys) =
     map_option (\<lambda>(p, ls). (p, f ls)) (find (\<lambda>(p, ls). p = ph) ys)"
proof (induction ys)
  case Nil
  then show ?case by simp
next
  case (Cons y ys)
  obtain p ls where y: "y = (p, ls)" by (cases y)
  show ?case
    using Cons by (simp add: y)
qed

lemma totalDuration_foldl: "totalDuration A ls = foldl (js_add A) 0 (map le_duration ls)"
  by (simp add: totalDuration_def foldl_map)

lemma foldl_exact_add: "foldl (js_add exact_arith) a ds = a + sum_list ds"
  by (induction ds arbitrary: a) (simp_all add: exact_arith_def add.assoc)

lemma reportedTotal_phaseLogs:
  assumes "wf_problemMap pm"
  shows "reportedTotal
      \<lparr>rp_generated = now, rp_problems = map (\<lambda>(url, e). render_problem A e) (ownEntries pm)\<rparr>
      url ph =
    map_option (totalDuration A) (phaseLogs pm url ph)"
proof -
  have keyed: "list_all (\<lambda>(k, e). pe_url e = k) (ownEntries pm)"
    using assms by (auto simp add: wf_problemMap_def list_all_iff)
  have outer: "find (\<lambda>it. ri_url it = url) (map (\<lambda>(k, e). render_problem A e) (ownEntries pm)) =
      map_option (render_problem A) (map_of pm url)"
    using assms
    by (simp add: find_rendered [OF keyed] find_key [where obj = pm] wf_problemMap_def
        option.map_comp comp_def)
  show ?thesis
  proof (cases "map_of pm url")
    case None
    then show ?thesis by (simp add: reportedTotal_def outer phaseLogs_def)
  next
    case (Some e)
    then have "distinct (map fst (pe_phases e))"
      using assms by (simp add: wf_problemMap_lookup)
    then have inner: "find (\<lambda>(p, ls). p = ph) (ownEntries (pe_phases e)) =
        map_option (Pair ph) (map_of (pe_phases e) ph)"
      by (intro find_key) simp_all
    have "map_option snd (find (\<lambda>(p, total). p = ph) (ri_phases (render_problem A e))) =
        map_option (totalDuration A) (map_of (pe_phases e) ph)"
      by (simp add: render_problem_def find_totals inner option.map_comp comp_def)
    moreover have "reportedTotal
        \<lparr>rp_generated = now,
           rp_problems = map (\<lambda>(url, e). render_problem A e) (ownEntries pm)\<rparr> url ph =
        map_option snd (find (\<lambda>(p, total). p = ph) (ri_phases (render_problem A e)))"
      by (simp add: reportedTotal_def outer Some)
    ultimately show ?thesis
      by (simp add: phaseLogs_def Some)
  qed
qed




end
